theory Spec2Isabelle
  imports Complex_Main "HOL-Library.Word" "HOL-Library.DAList" "HOL-Library.Log_Nat"
begin

unbundle bit_operations_syntax

section \<open>Chunks\<close>

text \<open>
  The world store imports the class \<open>Chunk\<close>, whose own file is not among the sources.
  What the store and the generator use of it is modelled here: the static edge length,
  the three coordinates given to the constructor, the voxel buffer and the dirty flag.
  World coordinates and block ids are integers throughout.
\<close>

text \<open>Modelled from the spec: \<open>Chunk.SIZE\<close>, the edge length of a chunk. The sources
  agree on 32: \<open>HEIGHT / Chunk.SIZE\<close> is annotated as 8 in the store, and the
  generator repeats the constant as \<open>cs = 32\<close>.\<close>

definition Chunk_SIZE :: int where
  "Chunk_SIZE = 32"

text \<open>Modelled from the spec: the fields of the missing class \<open>Chunk\<close> (\<open>x\<close>, \<open>y\<close>,
  \<open>z\<close>, \<open>blocks\<close>, \<open>isDirty\<close>). The voxel buffer is a dense array of
  \<open>SIZE * SIZE * SIZE\<close> block ids; it is a function of the index here, and every index
  the code below computes from integer coordinates lies inside the buffer.\<close>

record Chunk =
  chunk_x :: int
  chunk_y :: int
  chunk_z :: int
  blocks :: "int \<Rightarrow> int"
  isDirty :: bool

text \<open>Modelled from the spec: the constructor \<open>new Chunk(cx, cy, cz)\<close> of the missing
  class keeps its coordinates and starts with an all-empty buffer. The flag is taken
  to start cleared; every writer sets it through \<open>markDirty\<close>.\<close>

definition new_Chunk :: "int \<Rightarrow> int \<Rightarrow> int \<Rightarrow> Chunk" where
  "new_Chunk cx cy cz =
     \<lparr>chunk_x = cx, chunk_y = cy, chunk_z = cz, blocks = (\<lambda>_. 0), isDirty = False\<rparr>"

text \<open>The buffer layout, as the generator's direct write states it:
  \<open>chunk.blocks[(lx * cs + ly) * cs + lz]\<close>, "same layout as chunk.setBlock(lx, ly, lz)".\<close>

definition block_index :: "int \<Rightarrow> int \<Rightarrow> int \<Rightarrow> int" where
  "block_index lx ly lz = (lx * Chunk_SIZE + ly) * Chunk_SIZE + lz"

text \<open>Modelled from the spec: \<open>Chunk.setBlock\<close> and \<open>Chunk.getBlock\<close> of the missing
  class, on the layout above.\<close>

definition setBlock :: "Chunk \<Rightarrow> int \<Rightarrow> int \<Rightarrow> int \<Rightarrow> int \<Rightarrow> Chunk" where
  "setBlock c lx ly lz b = c\<lparr>blocks := (blocks c)(block_index lx ly lz := b)\<rparr>"

definition getBlock :: "Chunk \<Rightarrow> int \<Rightarrow> int \<Rightarrow> int \<Rightarrow> int" where
  "getBlock c lx ly lz = blocks c (block_index lx ly lz)"


section \<open>The world store (class HousingWorld)\<close>

text \<open>
  \<open>chunks\<close> is a JavaScript \<open>Map\<close> from the key string \<open>"cx,cy,cz"\<close> to the chunk: an
  association list with unique keys in insertion order, the key being the triple the
  string prints. \<open>dirtyChunks\<close> is a \<open>Set\<close> of chunk objects in insertion order; a chunk
  object is named by the key it is stored under. \<open>generatedColumns\<close> is a \<open>Set\<close> of
  the key strings \<open>"cx,cz"\<close>. The scene graph of the renderer is not part of the store.
\<close>

type_synonym chunk_key = "int \<times> int \<times> int"

record World =
  chunks :: "(chunk_key, Chunk) alist"
  dirtyChunks :: "chunk_key list"
  generatedColumns :: "(int \<times> int) set"

definition empty_World :: World where
  "empty_World = \<lparr>chunks = DAList.empty, dirtyChunks = [], generatedColumns = {}\<rparr>"

definition HEIGHT :: int where
  "HEIGHT = 256"

definition chunkKey :: "int \<Rightarrow> int \<Rightarrow> int \<Rightarrow> chunk_key" where
  "chunkKey cx cy cz = (cx, cy, cz)"

definition columnKey :: "int \<Rightarrow> int \<Rightarrow> int \<times> int" where
  "columnKey cx cz = (cx, cz)"

definition isColumnGenerated :: "World \<Rightarrow> int \<Rightarrow> int \<Rightarrow> bool" where
  "isColumnGenerated w cx cz \<longleftrightarrow> columnKey cx cz \<in> generatedColumns w"

definition markColumnGenerated :: "World \<Rightarrow> int \<Rightarrow> int \<Rightarrow> World" where
  "markColumnGenerated w cx cz =
     w\<lparr>generatedColumns := insert (columnKey cx cz) (generatedColumns w)\<rparr>"

definition getChunk :: "World \<Rightarrow> int \<Rightarrow> int \<Rightarrow> int \<Rightarrow> Chunk option" where
  "getChunk w cx cy cz = DAList.lookup (chunks w) (chunkKey cx cy cz)"

text \<open>\<open>getOrCreateChunk\<close> returns the chunk and the store, which holds the new chunk
  when there was none.\<close>

definition getOrCreateChunk :: "World \<Rightarrow> int \<Rightarrow> int \<Rightarrow> int \<Rightarrow> Chunk \<times> World" where
  "getOrCreateChunk w cx cy cz =
     (let key = chunkKey cx cy cz in
      case DAList.lookup (chunks w) key of
        Some chunk \<Rightarrow> (chunk, w)
      | None \<Rightarrow>
          (let chunk = new_Chunk cx cy cz
           in (chunk, w\<lparr>chunks := DAList.update key chunk (chunks w)\<rparr>)))"

text \<open>Adding to a JavaScript \<open>Set\<close> keeps the position of a member already there.\<close>

definition set_add :: "'a \<Rightarrow> 'a list \<Rightarrow> 'a list" where
  "set_add k ks = (if k \<in> set ks then ks else ks @ [k])"

text \<open>
  A chunk object is mutated in place by its holder. In the model the holder has a copy,
  and \<open>markDirty\<close>, which every writer calls when it is done with the chunk, stores the
  copy back under the chunk's key with the flag set, and adds the key to the dirty set.
\<close>

definition markDirty :: "World \<Rightarrow> chunk_key \<Rightarrow> Chunk \<Rightarrow> World" where
  "markDirty w key chunk =
     w\<lparr>chunks := DAList.update key (chunk\<lparr>isDirty := True\<rparr>) (chunks w),
       dirtyChunks := set_add key (dirtyChunks w)\<rparr>"

text \<open>\<open>Math.floor(w / Chunk.SIZE)\<close> and \<open>w - c * Chunk.SIZE\<close>, as \<open>set\<close> and \<open>get\<close>
  compute them for each of the three axes.\<close>

definition chunkCoord :: "int \<Rightarrow> int" where
  "chunkCoord w = \<lfloor>real_of_int w / real_of_int Chunk_SIZE\<rfloor>"

definition localCoord :: "int \<Rightarrow> int" where
  "localCoord w = w - chunkCoord w * Chunk_SIZE"

text \<open>The method \<open>set\<close> of the store; the name \<open>set\<close> is taken in HOL.\<close>

definition set_block :: "World \<Rightarrow> int \<Rightarrow> int \<Rightarrow> int \<Rightarrow> int \<Rightarrow> World" where
  "set_block w x y z block =
     (if y < 0 \<or> y \<ge> HEIGHT then w
      else
        let cx = chunkCoord x; cy = chunkCoord y; cz = chunkCoord z;
            lx = localCoord x; ly = localCoord y; lz = localCoord z;
            (chunk, w1) = getOrCreateChunk w cx cy cz
        in markDirty w1 (chunkKey cx cy cz) (setBlock chunk lx ly lz block))"

text \<open>\<open>get\<close> returns the block id together with the store after the call.\<close>

definition get :: "World \<Rightarrow> int \<Rightarrow> int \<Rightarrow> int \<Rightarrow> int \<times> World" where
  "get w x y z =
     (if y < 0 \<or> y \<ge> HEIGHT then (0, w)
      else
        let cx = chunkCoord x; cy = chunkCoord y; cz = chunkCoord z
        in case getChunk w cx cy cz of
             None \<Rightarrow> (0, w)
           | Some chunk \<Rightarrow>
               (let lx = localCoord x; ly = localCoord y; lz = localCoord z
                in (getBlock chunk lx ly lz, w)))"

text \<open>The block id that \<open>get\<close> returns.\<close>

definition get_block :: "World \<Rightarrow> int \<Rightarrow> int \<Rightarrow> int \<Rightarrow> int" where
  "get_block w x y z = fst (get w x y z)"


section \<open>The seeded generator mulberry32\<close>

text \<open>
  \<open>mulberry32(seed)\<close> returns a closure over the variable \<open>seed\<close>. The closure's state
  is that variable, which every call first reduces to 32 bits (\<open>| 0\<close>); the model holds
  it as a 32-bit word from the start. \<open>Math.imul\<close> is the wrapping product, \<open>>>>\<close> the
  logical shift. A call returns the drawn value and the next state. The value is an
  integer below \<open>2^32\<close> divided by \<open>2^32\<close>, which a double holds exactly.
\<close>

type_synonym rng = "32 word"

definition mulberry32 :: "int \<Rightarrow> rng" where
  "mulberry32 s = word_of_int s"

definition rng_next :: "rng \<Rightarrow> real \<times> rng" where
  "rng_next st =
     (let s = st + 0x6d2b79f5;
          t = (s XOR drop_bit 15 s) * (1 OR s);
          t = (t + (t XOR drop_bit 7 t) * (61 OR t)) XOR t
      in (real_of_int (uint (t XOR drop_bit 14 t)) / 4294967296, s))"


section \<open>Double-precision numbers\<close>

text \<open>
  The numbers of the noise and height computations are IEEE 754 doubles. A double is a
  finite value, held as the real number it denotes, one of the two infinities, or
  \<open>NaN\<close>. The sign of a zero is not kept: a zero is \<open>+0\<close>. In the code below the sign
  of a zero could only show in a division by zero, and the one divisor that can be
  zero, the amplitude total of \<open>octave\<close>, is a sum started from \<open>+0\<close>, which is never
  \<open>-0\<close>.
\<close>

datatype double = Fin real | PosInf | NegInf | NaN

text \<open>Rounding to the nearest integer, a tie to the even one.\<close>

definition round_even :: "real \<Rightarrow> int" where
  "round_even x =
     (let f = \<lfloor>x\<rfloor>; d = x - of_int f
      in if d < 1 / 2 then f else if 1 / 2 < d then f + 1 else if even f then f else f + 1)"

text \<open>The binary exponent of a positive number \<open>x\<close>: the \<open>e\<close> with
  \<open>2^e \<le> x < 2^(e + 1)\<close>.\<close>

definition ilog2 :: "real \<Rightarrow> int" where
  "ilog2 x = (if 1 \<le> x then bitlen \<lfloor>x\<rfloor> - 1 else - bitlen (\<lceil>1 / x\<rceil> - 1))"

text \<open>
  The double nearest to a real number, ties to even: 53 significant bits at the
  number's exponent, the spacing \<open>2^-1074\<close> of the subnormal numbers below the exponent
  \<open>-1022\<close>, and an infinity when the rounded magnitude reaches \<open>2^1024\<close>. Every
  arithmetic operation of the source returns the exact result rounded this way, and a
  decimal literal denotes the double nearest to it.
\<close>

definition fl :: "real \<Rightarrow> double" where
  "fl x =
     (if x = 0 then Fin 0
      else
        let e = max (ilog2 \<bar>x\<bar>) (- 1022);
            q = 2 powi (e - 52);
            y = of_int (round_even (x / q)) * q
        in if 2 powi 1024 \<le> \<bar>y\<bar> then (if 0 < x then PosInf else NegInf) else Fin y)"

text \<open>The operators \<open>-\<close> (unary), \<open>+\<close>, \<open>-\<close>, \<open>*\<close> and \<open>/\<close> on doubles.\<close>

fun dneg :: "double \<Rightarrow> double" where
  "dneg (Fin a) = Fin (- a)"
| "dneg PosInf = NegInf"
| "dneg NegInf = PosInf"
| "dneg NaN = NaN"

fun dadd :: "double \<Rightarrow> double \<Rightarrow> double" where
  "dadd (Fin a) (Fin b) = fl (a + b)"
| "dadd NaN _ = NaN"
| "dadd _ NaN = NaN"
| "dadd PosInf NegInf = NaN"
| "dadd NegInf PosInf = NaN"
| "dadd PosInf _ = PosInf"
| "dadd _ PosInf = PosInf"
| "dadd NegInf _ = NegInf"
| "dadd _ NegInf = NegInf"

definition dsub :: "double \<Rightarrow> double \<Rightarrow> double" where
  "dsub a b = dadd a (dneg b)"

definition inf_of_sign :: "bool \<Rightarrow> double" where
  "inf_of_sign negative = (if negative then NegInf else PosInf)"

fun dmul :: "double \<Rightarrow> double \<Rightarrow> double" where
  "dmul (Fin a) (Fin b) = fl (a * b)"
| "dmul NaN _ = NaN"
| "dmul _ NaN = NaN"
| "dmul (Fin a) PosInf = (if a = 0 then NaN else inf_of_sign (a < 0))"
| "dmul (Fin a) NegInf = (if a = 0 then NaN else inf_of_sign (0 < a))"
| "dmul PosInf (Fin b) = (if b = 0 then NaN else inf_of_sign (b < 0))"
| "dmul NegInf (Fin b) = (if b = 0 then NaN else inf_of_sign (0 < b))"
| "dmul PosInf PosInf = PosInf"
| "dmul NegInf NegInf = PosInf"
| "dmul PosInf NegInf = NegInf"
| "dmul NegInf PosInf = NegInf"

fun ddiv :: "double \<Rightarrow> double \<Rightarrow> double" where
  "ddiv (Fin a) (Fin b) =
     (if b = 0 then (if a = 0 then NaN else inf_of_sign (a < 0)) else fl (a / b))"
| "ddiv NaN _ = NaN"
| "ddiv _ NaN = NaN"
| "ddiv (Fin a) _ = Fin 0"
| "ddiv PosInf (Fin b) = inf_of_sign (b < 0)"
| "ddiv NegInf (Fin b) = inf_of_sign (0 \<le> b)"
| "ddiv _ _ = NaN"

text \<open>\<open>Math.floor\<close>, and \<open>Math.round\<close>, which rounds a half upwards.\<close>

fun dfloor :: "double \<Rightarrow> double" where
  "dfloor (Fin a) = Fin (of_int \<lfloor>a\<rfloor>)"
| "dfloor d = d"

fun js_round :: "double \<Rightarrow> double" where
  "js_round (Fin a) = Fin (of_int \<lfloor>a + 1 / 2\<rfloor>)"
| "js_round d = d"

text \<open>\<open>d & 255\<close> for a double \<open>d\<close> out of \<open>Math.floor\<close>: the low eight bits of the
  integer, and 0 for an infinity or \<open>NaN\<close>.\<close>

fun index255 :: "double \<Rightarrow> int" where
  "index255 (Fin a) = \<lfloor>a\<rfloor> AND 255"
| "index255 d = 0"


section \<open>Value noise (class ValueNoise)\<close>

definition fade :: "double \<Rightarrow> double" where
  "fade t = dmul (dmul (dmul t t) t) (dadd (dmul t (dsub (dmul t (Fin 6)) (Fin 15))) (Fin 10))"

definition lerp :: "double \<Rightarrow> double \<Rightarrow> double \<Rightarrow> double" where
  "lerp a b t = dadd a (dmul t (dsub b a))"

text \<open>The constructor: the table \<open>p\<close> of the bytes 0 to 255, shuffled from the end by
  the seeded generator, then copied twice into \<open>perm\<close>. The product
  \<open>rand() * (i + 1)\<close> of a multiple of \<open>2^-32\<close> below 1 and an integer up to 256 is
  exact in doubles.\<close>

definition shuffle_step :: "int \<Rightarrow> 8 word list \<times> rng \<Rightarrow> 8 word list \<times> rng" where
  "shuffle_step i = (\<lambda>(p, rand).
     let (r, rand') = rng_next rand;
         j = \<lfloor>r * real_of_int (i + 1)\<rfloor>;
         tmp = p ! nat i
     in ((p[nat i := p ! nat j])[nat j := tmp], rand'))"

definition ValueNoise :: "int \<Rightarrow> 8 word list" where
  "ValueNoise s =
     (let rand = mulberry32 s;
          p = map word_of_int [0..255];
          (p, rand) = fold shuffle_step (rev [1..255]) (p, rand)
      in map (\<lambda>i. p ! nat (i AND 255)) [0..511])"

text \<open>A read of the typed array \<open>perm\<close>: \<open>undefined\<close> outside it, which the arithmetic
  that follows turns into \<open>NaN\<close>.\<close>

definition perm_at :: "8 word list \<Rightarrow> int \<Rightarrow> int option" where
  "perm_at perm i =
     (if 0 \<le> i \<and> i < int (length perm) then Some (uint (perm ! nat i)) else None)"

text \<open>One corner value \<open>this.perm[this.perm[i] + k] / 255\<close>.\<close>

definition corner :: "8 word list \<Rightarrow> int \<Rightarrow> int \<Rightarrow> double" where
  "corner perm i k =
     (case perm_at perm i of
        None \<Rightarrow> NaN
      | Some p \<Rightarrow>
          (case perm_at perm (p + k) of
             None \<Rightarrow> NaN
           | Some v \<Rightarrow> ddiv (Fin (of_int v)) (Fin 255)))"

definition sample :: "8 word list \<Rightarrow> double \<Rightarrow> double \<Rightarrow> double" where
  "sample perm x z =
     (let xi = index255 (dfloor x);
          zi = index255 (dfloor z);
          xf = dsub x (dfloor x);
          zf = dsub z (dfloor z);
          u = fade xf;
          v = fade zf;
          aa = corner perm xi zi;
          ba = corner perm (xi + 1) zi;
          ab = corner perm xi (zi + 1);
          bb = corner perm (xi + 1) (zi + 1)
      in lerp (lerp aa ba u) (lerp ab bb u) v)"

text \<open>The loop of \<open>octave\<close> on its four variables \<open>value\<close>, \<open>amplitude\<close>, \<open>frequency\<close>
  and \<open>maxValue\<close>; the first argument counts the rounds left. The total \<open>maxValue\<close>
  takes the amplitude of the round, before it is scaled for the next one.\<close>

fun octave_loop ::
  "nat \<Rightarrow> 8 word list \<Rightarrow> double \<Rightarrow> double \<Rightarrow> double \<Rightarrow>
   double \<times> double \<times> double \<times> double \<Rightarrow> double \<times> double \<times> double \<times> double" where
  "octave_loop 0 perm x z persistence st = st"
| "octave_loop (Suc n) perm x z persistence (val, amplitude, frequency, maxValue) =
     octave_loop n perm x z persistence
       (dadd val (dmul (sample perm (dmul x frequency) (dmul z frequency)) amplitude),
        dmul amplitude persistence, dmul frequency (Fin 2), dadd maxValue amplitude)"

definition octave ::
  "8 word list \<Rightarrow> double \<Rightarrow> double \<Rightarrow> int \<Rightarrow> double \<Rightarrow> double \<Rightarrow> double" where
  "octave perm x z octaves persistence scale =
     (case octave_loop (nat octaves) perm x z persistence (Fin 0, Fin 1, scale, Fin 0) of
        (val, amplitude, frequency, maxValue) \<Rightarrow> ddiv val maxValue)"

text \<open>\<open>hashCoords\<close>: 32-bit mixing of the seed and the two chunk coordinates.\<close>

definition hashCoords :: "int \<Rightarrow> int \<Rightarrow> int \<Rightarrow> int" where
  "hashCoords s x z =
     (let h = (word_of_int s XOR 0x45d9f3b :: 32 word);
          h = (h XOR word_of_int (x * 1664525 + 1013904223)) * 0x27d4eb2d;
          h = (h XOR word_of_int (z * 1664525 + 1013904223)) * 0x27d4eb2d;
          h = h XOR drop_bit 16 h
      in uint h)"


section \<open>Block ids\<close>

definition BLK_AIR :: int where "BLK_AIR = 0"
definition BLK_STONE :: int where "BLK_STONE = 1"
definition BLK_GRASS :: int where "BLK_GRASS = 8"
definition BLK_DIRT :: int where "BLK_DIRT = 9"
definition BLK_BEDROCK :: int where "BLK_BEDROCK = 19"
definition BLK_SAND :: int where "BLK_SAND = 20"

definition OAK_LOG :: int where "OAK_LOG = 26"
definition OAK_LEAVES :: int where "OAK_LEAVES = 30"
definition AIR :: int where "AIR = 0"


section \<open>Structures (interface IStructure, class OakTree)\<close>

text \<open>The trunk, the three leaf layers and the cap of \<open>OakTree.generate\<close>, in the
  order of the source. The leaf layers read the store before each write.\<close>

definition oak_trunk :: "World \<Rightarrow> int \<Rightarrow> int \<Rightarrow> int \<Rightarrow> int \<Rightarrow> World" where
  "oak_trunk w x y z height =
     fold (\<lambda>i w. set_block w x (y + i) z OAK_LOG) [0..height - 1] w"

definition oak_leaf :: "int \<Rightarrow> int \<Rightarrow> int \<Rightarrow> int \<Rightarrow> int \<Rightarrow> int \<times> int \<Rightarrow> World \<Rightarrow> World" where
  "oak_leaf x leafBase z dy radius = (\<lambda>(dx, dz) w.
     if \<bar>dx\<bar> = radius \<and> \<bar>dz\<bar> = radius then w
     else
       let lx = x + dx; ly = leafBase + dy; lz = z + dz;
           (b, w1) = get w lx ly lz
       in if b = AIR then set_block w1 lx ly lz OAK_LEAVES else w1)"

definition oak_layer :: "int \<Rightarrow> int \<Rightarrow> int \<Rightarrow> int \<Rightarrow> World \<Rightarrow> World" where
  "oak_layer x leafBase z dy w =
     (let radius = (if dy = 1 then 1 else 2)
      in fold (oak_leaf x leafBase z dy radius)
           (List.product [- radius..radius] [- radius..radius]) w)"

definition oak_layers :: "World \<Rightarrow> int \<Rightarrow> int \<Rightarrow> int \<Rightarrow> World" where
  "oak_layers w x leafBase z = fold (oak_layer x leafBase z) [-1..1] w"

definition oak_cap :: "World \<Rightarrow> int \<Rightarrow> int \<Rightarrow> int \<Rightarrow> World" where
  "oak_cap w x leafBase z = set_block w x (leafBase + 2) z OAK_LEAVES"

definition OakTree_generate ::
  "World \<Rightarrow> int \<Rightarrow> int \<Rightarrow> int \<Rightarrow> rng \<Rightarrow> World \<times> rng" where
  "OakTree_generate w x y z rand =
     (let (r, rand') = rng_next rand;
          height = 4 + \<lfloor>r * 3\<rfloor>;
          w = oak_trunk w x y z height;
          leafBase = y + height;
          w = oak_layers w x leafBase z;
          w = oak_cap w x leafBase z
      in (w, rand'))"

text \<open>The implementations of \<open>IStructure\<close> in the repository: the oak tree.\<close>

datatype IStructure = OakTree

fun structure_generate ::
  "IStructure \<Rightarrow> World \<Rightarrow> int \<Rightarrow> int \<Rightarrow> int \<Rightarrow> rng \<Rightarrow> World \<times> rng" where
  "structure_generate OakTree w x y z rand = OakTree_generate w x y z rand"

record StructureEntry =
  entry_structure :: IStructure
  attemptsPerChunk :: int


section \<open>The generator (class WorldGenerator)\<close>

record WorldGenOptions =
  opt_seed :: "int option"
  opt_seaLevel :: "int option"
  opt_minHeight :: "int option"
  opt_maxHeight :: "int option"
  opt_structures :: "StructureEntry list option"

record WorldGenerator =
  seed :: int
  noise :: "8 word list"
  seaLevel :: int
  minHeight :: int
  maxHeight :: int
  structures :: "StructureEntry list"

definition or_default :: "'a option \<Rightarrow> 'a \<Rightarrow> 'a" where
  "or_default v d = (case v of None \<Rightarrow> d | Some a \<Rightarrow> a)"

definition new_WorldGenerator :: "WorldGenOptions \<Rightarrow> WorldGenerator" where
  "new_WorldGenerator options =
     (let s = or_default (opt_seed options) 12345
      in \<lparr>seed = s,
          noise = ValueNoise s,
          seaLevel = or_default (opt_seaLevel options) 62,
          minHeight = or_default (opt_minHeight options) 48,
          maxHeight = or_default (opt_maxHeight options) 96,
          structures = or_default (opt_structures options)
            [\<lparr>entry_structure = OakTree, attemptsPerChunk = 3\<rparr>]\<rparr>)"

text \<open>The options of \<open>new WorldGenerator()\<close>, all left to their defaults.\<close>

definition default_options :: WorldGenOptions where
  "default_options =
     \<lparr>opt_seed = None, opt_seaLevel = None, opt_minHeight = None, opt_maxHeight = None,
      opt_structures = None\<rparr>"

definition addStructure :: "WorldGenerator \<Rightarrow> StructureEntry \<Rightarrow> WorldGenerator" where
  "addStructure g entry = g\<lparr>structures := structures g @ [entry]\<rparr>"

text \<open>The second line of \<open>getSurfaceY\<close>, on the noise value \<open>n\<close>.\<close>

definition height_of_noise :: "int \<Rightarrow> int \<Rightarrow> double \<Rightarrow> double" where
  "height_of_noise minH maxH n =
     js_round (dadd (fl (of_int minH)) (dmul n (dsub (fl (of_int maxH)) (fl (of_int minH)))))"

text \<open>\<open>getSurfaceY\<close>, with the literals \<open>0.5\<close>, which is a double, and \<open>0.004\<close>, which
  stands for the double nearest to it.\<close>

definition getSurfaceY :: "WorldGenerator \<Rightarrow> int \<Rightarrow> int \<Rightarrow> double" where
  "getSurfaceY g wx wz =
     height_of_noise (minHeight g) (maxHeight g)
       (octave (noise g) (fl (of_int wx)) (fl (of_int wz)) 6 (Fin (1 / 2)) (fl (4 / 1000)))"

text \<open>A store into the \<open>Int32Array\<close> of heights keeps the low 32 bits, signed.\<close>

definition to_int32 :: "int \<Rightarrow> int" where
  "to_int32 h = (h + 2147483648) mod 4294967296 - 2147483648"

definition cs :: int where "cs = 32"
definition numCY :: int where "numCY = 8"

text \<open>
  The heightmap loop: the array \<open>heights\<close>, indexed by \<open>lx * cs + lz\<close>, and the
  running maximum. A finite height \<open>h\<close> is an integer out of \<open>Math.round\<close>, so
  \<open>\<lfloor>h\<rfloor>\<close> is that integer. A height that is not finite is stored as 0. \<open>NaN\<close> and
  \<open>-Infinity\<close> are never greater than the maximum. \<open>+Infinity\<close> becomes the maximum
  and stays it; the maximum is read only by the test \<open>cyMin > maxHeight\<close> of the
  terrain loop, where \<open>cyMin < numCY * cs\<close>, and the model keeps \<open>numCY * cs\<close>, or what
  is greater, in its place.
\<close>

definition heightmap_step ::
  "WorldGenerator \<Rightarrow> int \<Rightarrow> int \<Rightarrow> int \<times> int \<Rightarrow> (int \<Rightarrow> int) \<times> int \<Rightarrow> (int \<Rightarrow> int) \<times> int" where
  "heightmap_step g wx0 wz0 = (\<lambda>(lx, lz) (heights, maxH).
     case getSurfaceY g (wx0 + lx) (wz0 + lz) of
       Fin h \<Rightarrow>
         (heights(lx * cs + lz := to_int32 \<lfloor>h\<rfloor>), if \<lfloor>h\<rfloor> > maxH then \<lfloor>h\<rfloor> else maxH)
     | PosInf \<Rightarrow> (heights(lx * cs + lz := 0), max maxH (numCY * cs))
     | NegInf \<Rightarrow> (heights(lx * cs + lz := 0), maxH)
     | NaN \<Rightarrow> (heights(lx * cs + lz := 0), maxH))"

definition heightmap :: "WorldGenerator \<Rightarrow> int \<Rightarrow> int \<Rightarrow> (int \<Rightarrow> int) \<times> int" where
  "heightmap g wx0 wz0 =
     fold (heightmap_step g wx0 wz0) (List.product [0..cs - 1] [0..cs - 1]) (\<lambda>_. 0, 0)"

text \<open>The block chosen for height \<open>wy\<close> of a column with surface \<open>surfaceY\<close>.\<close>

definition terrain_block :: "bool \<Rightarrow> int \<Rightarrow> int \<Rightarrow> int" where
  "terrain_block isBeach surfaceY wy =
     (if wy = 0 then BLK_BEDROCK
      else if wy < surfaceY - 4 then BLK_STONE
      else if wy < surfaceY then (if isBeach then BLK_SAND else BLK_DIRT)
      else (if isBeach then BLK_SAND else BLK_GRASS))"

text \<open>The body of the loops over \<open>lx\<close> and \<open>lz\<close> for one chunk layer, with its loop
  over \<open>wy\<close>, writing into the chunk's buffer.\<close>

definition fill_column ::
  "int \<Rightarrow> (int \<Rightarrow> int) \<Rightarrow> int \<Rightarrow> int \<times> int \<Rightarrow> Chunk \<Rightarrow> Chunk" where
  "fill_column sl heights cyMin = (\<lambda>(lx, lz) chunk.
     let cyMax = cyMin + cs;
         surfaceY = heights (lx * cs + lz);
         isBeach = (surfaceY \<le> sl + 2)
     in if surfaceY < cyMin then chunk
        else
          let fillTop = min surfaceY (cyMax - 1)
          in fold (\<lambda>wy chunk.
                     let ly = wy - cyMin;
                         block = terrain_block isBeach surfaceY wy
                     in chunk\<lparr>blocks := (blocks chunk)((lx * cs + ly) * cs + lz := block)\<rparr>)
               [cyMin..fillTop] chunk)"

definition terrain_layer ::
  "int \<Rightarrow> (int \<Rightarrow> int) \<Rightarrow> int \<Rightarrow> int \<Rightarrow> int \<Rightarrow> int \<Rightarrow> World \<Rightarrow> World" where
  "terrain_layer sl heights maxH chunkX chunkZ cy w =
     (let cyMin = cy * cs
      in if cyMin > maxH then w
         else
           let (chunk, w1) = getOrCreateChunk w chunkX cy chunkZ;
               chunk = fold (fill_column sl heights cyMin)
                         (List.product [0..cs - 1] [0..cs - 1]) chunk
           in markDirty w1 (chunkKey chunkX cy chunkZ) chunk)"

definition terrain ::
  "int \<Rightarrow> (int \<Rightarrow> int) \<Rightarrow> int \<Rightarrow> World \<Rightarrow> int \<Rightarrow> int \<Rightarrow> World" where
  "terrain sl heights maxH w chunkX chunkZ =
     fold (terrain_layer sl heights maxH chunkX chunkZ) [0..numCY - 1] w"

text \<open>One placement attempt: two draws for the position, then the structure, which
  goes on drawing from the same generator.\<close>

definition attempt_step ::
  "int \<Rightarrow> (int \<Rightarrow> int) \<Rightarrow> int \<Rightarrow> int \<Rightarrow> IStructure \<Rightarrow> World \<times> rng \<Rightarrow> World \<times> rng" where
  "attempt_step sl heights wx0 wz0 s = (\<lambda>(w, chunkRand).
     let (r1, chunkRand) = rng_next chunkRand;
         lx = \<lfloor>r1 * of_int cs\<rfloor>;
         (r2, chunkRand) = rng_next chunkRand;
         lz = \<lfloor>r2 * of_int cs\<rfloor>;
         wx = wx0 + lx;
         wz = wz0 + lz;
         surfaceY = heights (lx * cs + lz);
         isBeach = (surfaceY \<le> sl + 2)
     in if \<not> isBeach then structure_generate s w wx (surfaceY + 1) wz chunkRand
        else (w, chunkRand))"

definition entry_step ::
  "int \<Rightarrow> (int \<Rightarrow> int) \<Rightarrow> int \<Rightarrow> int \<Rightarrow> StructureEntry \<Rightarrow> World \<times> rng \<Rightarrow> World \<times> rng" where
  "entry_step sl heights wx0 wz0 entry st =
     fold (\<lambda>attempt. attempt_step sl heights wx0 wz0 (entry_structure entry))
       [0..attemptsPerChunk entry - 1] st"

definition place_structures ::
  "WorldGenerator \<Rightarrow> (int \<Rightarrow> int) \<Rightarrow> World \<Rightarrow> int \<Rightarrow> int \<Rightarrow> World" where
  "place_structures g heights w chunkX chunkZ =
     (let chunkRand = mulberry32 (hashCoords (seed g) chunkX chunkZ)
      in fst (fold (entry_step (seaLevel g) heights (chunkX * cs) (chunkZ * cs))
                (structures g) (w, chunkRand)))"

definition generateChunk :: "WorldGenerator \<Rightarrow> World \<Rightarrow> int \<Rightarrow> int \<Rightarrow> World" where
  "generateChunk g w chunkX chunkZ =
     (if isColumnGenerated w chunkX chunkZ then w
      else
        let w = markColumnGenerated w chunkX chunkZ;
            wx0 = chunkX * cs;
            wz0 = chunkZ * cs;
            (heights, maxH) = heightmap g wx0 wz0;
            w = terrain (seaLevel g) heights maxH w chunkX chunkZ
        in place_structures g heights w chunkX chunkZ)"


section \<open>Meshing and streaming (HousingWorld.buildChunks, HousingWorld.update)\<close>

text \<open>
  Rebuilding a chunk's geometry and mesh is the renderer's work and leaves the store
  alone; what the store sees of \<open>buildChunks\<close> is the flag cleared and the chunk taken
  out of the dirty set. The budget \<open>None\<close> is the default \<open>Infinity\<close>.
\<close>

definition rebuild :: "World \<Rightarrow> chunk_key \<Rightarrow> World" where
  "rebuild w key =
     w\<lparr>chunks := (case DAList.lookup (chunks w) key of
                    None \<Rightarrow> chunks w
                  | Some chunk \<Rightarrow> DAList.update key (chunk\<lparr>isDirty := False\<rparr>) (chunks w)),
       dirtyChunks := removeAll key (dirtyChunks w)\<rparr>"

fun buildChunks_loop :: "int option \<Rightarrow> chunk_key list \<Rightarrow> int \<Rightarrow> World \<Rightarrow> World" where
  "buildChunks_loop maxChunks [] built w = w"
| "buildChunks_loop maxChunks (key # keys) built w =
     (let w' = rebuild w key
      in if (case maxChunks of None \<Rightarrow> False | Some m \<Rightarrow> built + 1 \<ge> m) then w'
         else buildChunks_loop maxChunks keys (built + 1) w')"

definition buildChunks :: "World \<Rightarrow> int option \<Rightarrow> World" where
  "buildChunks w maxChunks = buildChunks_loop maxChunks (dirtyChunks w) 0 w"

text \<open>The cells of the ring of radius \<open>r\<close> in the order the two inner loops visit
  them, and the columns of all rings up to the render distance.\<close>

definition ring_cells :: "int \<Rightarrow> (int \<times> int) list" where
  "ring_cells r =
     filter (\<lambda>(dx, dz). \<not> (\<bar>dx\<bar> \<noteq> r \<and> \<bar>dz\<bar> \<noteq> r)) (List.product [- r..r] [- r..r])"

definition ring_columns :: "int \<Rightarrow> int \<Rightarrow> int \<Rightarrow> (int \<times> int) list" where
  "ring_columns pcx pcz renderDistance =
     map (\<lambda>(dx, dz). (pcx + dx, pcz + dz)) (concat (map ring_cells [0..renderDistance]))"

text \<open>The generation loop with its counter; \<open>break outer\<close> ends it.\<close>

fun generate_loop ::
  "WorldGenerator \<Rightarrow> int \<Rightarrow> (int \<times> int) list \<Rightarrow> int \<Rightarrow> World \<Rightarrow> World" where
  "generate_loop g maxGenPerFrame [] generated w = w"
| "generate_loop g maxGenPerFrame ((cx, cz) # cols) generated w =
     (if \<not> isColumnGenerated w cx cz then
        (let w' = generateChunk g w cx cz
         in if generated + 1 \<ge> maxGenPerFrame then w'
            else generate_loop g maxGenPerFrame cols (generated + 1) w')
      else generate_loop g maxGenPerFrame cols generated w)"

definition unload_step :: "int \<Rightarrow> int \<Rightarrow> int \<Rightarrow> chunk_key \<times> Chunk \<Rightarrow> World \<Rightarrow> World" where
  "unload_step pcx pcz unloadLimit = (\<lambda>(key, chunk) w.
     if \<bar>chunk_x chunk - pcx\<bar> > unloadLimit \<or> \<bar>chunk_z chunk - pcz\<bar> > unloadLimit
     then w\<lparr>dirtyChunks := removeAll key (dirtyChunks w),
            chunks := DAList.delete key (chunks w)\<rparr>
     else w)"

definition unload :: "World \<Rightarrow> int \<Rightarrow> int \<Rightarrow> int \<Rightarrow> World" where
  "unload w pcx pcz unloadLimit =
     fold (unload_step pcx pcz unloadLimit) (DAList.impl_of (chunks w)) w"

definition update ::
  "World \<Rightarrow> real \<Rightarrow> real \<Rightarrow> WorldGenerator \<Rightarrow> int \<Rightarrow> int \<Rightarrow> int \<Rightarrow> World" where
  "update w playerX playerZ g renderDistance maxGenPerFrame maxBuildPerFrame =
     (let pcx = \<lfloor>playerX / of_int Chunk_SIZE\<rfloor>;
          pcz = \<lfloor>playerZ / of_int Chunk_SIZE\<rfloor>;
          w = generate_loop g maxGenPerFrame (ring_columns pcx pcz renderDistance) 0 w;
          unloadLimit = renderDistance + 3;
          w = unload w pcx pcz unloadLimit
      in buildChunks w (Some maxBuildPerFrame))"

definition clear :: "World \<Rightarrow> World" where
  "clear w = \<lparr>chunks = DAList.empty, dirtyChunks = [], generatedColumns = {}\<rparr>"



section \<open>Notions for the statements and proofs\<close>

text \<open>The horizontal Chebyshev distance of the column \<open>(cx, cz)\<close> from the player's
  column \<open>(pcx, pcz)\<close>, and the test of the unload loop.\<close>

definition column_distance :: "int \<Rightarrow> int \<Rightarrow> int \<Rightarrow> int \<Rightarrow> int" where
  "column_distance pcx pcz cx cz = max \<bar>cx - pcx\<bar> \<bar>cz - pcz\<bar>"

definition far_chunk :: "int \<Rightarrow> int \<Rightarrow> int \<Rightarrow> Chunk \<Rightarrow> bool" where
  "far_chunk pcx pcz unloadLimit chunk \<longleftrightarrow>
     \<bar>chunk_x chunk - pcx\<bar> > unloadLimit \<or> \<bar>chunk_z chunk - pcz\<bar> > unloadLimit"

text \<open>Every chunk loaded in \<open>w\<close> is loaded in \<open>w'\<close>, under the same key and with the
  same horizontal coordinates.\<close>

definition chunks_kept :: "World \<Rightarrow> World \<Rightarrow> bool" where
  "chunks_kept w w' \<longleftrightarrow>
     (\<forall>key c. DAList.lookup (chunks w) key = Some c \<longrightarrow>
        (\<exists>c'. DAList.lookup (chunks w') key = Some c'
              \<and> chunk_x c' = chunk_x c \<and> chunk_z c' = chunk_z c))"

text \<open>The chunk \<open>getOrCreateChunk\<close> returns.\<close>

definition chunk_or_new :: "World \<Rightarrow> int \<Rightarrow> int \<Rightarrow> int \<Rightarrow> Chunk" where
  "chunk_or_new w cx cy cz =
     (case DAList.lookup (chunks w) (chunkKey cx cy cz) of
        Some c \<Rightarrow> c | None \<Rightarrow> new_Chunk cx cy cz)"

text \<open>A store with one loaded chunk, made through \<open>getOrCreateChunk\<close>.\<close>

definition one_chunk_World :: "int \<Rightarrow> World" where
  "one_chunk_World cx = snd (getOrCreateChunk empty_World cx 0 0)"


text \<open>A finite double of magnitude at most \<open>2^k\<close>.\<close>

definition mag_le :: "nat \<Rightarrow> double \<Rightarrow> bool" where
  "mag_le k d = (case d of Fin v \<Rightarrow> \<bar>v\<bar> \<le> 2 ^ k | _ \<Rightarrow> False)"


section \<open>Coordinate resolution\<close>

lemma chunkCoord_div: "chunkCoord w = w div 32"
  unfolding chunkCoord_def Chunk_SIZE_def
  using floor_divide_of_int_eq [of w 32, where ?'a = real] by simp

lemma localCoord_mod: "localCoord w = w mod 32"
  unfolding localCoord_def chunkCoord_div Chunk_SIZE_def
  by (simp add: minus_div_mult_eq_mod)

text \<open>
  C4. For every integer world coordinate \<open>w\<close>, negative ones included, the chunk
  coordinate \<open>floor (w / CHUNK_SIZE)\<close> and the local coordinate \<open>w - c * CHUNK_SIZE\<close>
  that \<open>set\<close> and \<open>get\<close> compute satisfy \<open>c * CHUNK_SIZE + l = w\<close> and
  \<open>0 \<le> l < CHUNK_SIZE\<close>, with \<open>CHUNK_SIZE = 32\<close>.
\<close>

theorem coordinate_resolution:
  "chunkCoord w * Chunk_SIZE + localCoord w = w
   \<and> 0 \<le> localCoord w \<and> localCoord w < Chunk_SIZE \<and> Chunk_SIZE = 32"
  by (simp add: localCoord_mod chunkCoord_div Chunk_SIZE_def)


section \<open>Vertical bounds\<close>

text \<open>
  C5. For every \<open>x\<close>, \<open>z\<close> and every \<open>y\<close> below 0 or at least \<open>HEIGHT = 256\<close>,
  \<open>get\<close> returns the empty block 0 and \<open>set\<close> leaves the whole store as it was.
\<close>

theorem out_of_bounds_access:
  "y < 0 \<or> y \<ge> 256 \<Longrightarrow>
     fst (get w x y z) = 0 \<and> set_block w x y z b = w"
  by (auto simp: get_def set_block_def HEIGHT_def)

theorem out_of_bounds_access_witness:
  "fst (get empty_World 5 (-1) 7) = 0 \<and> set_block empty_World 5 (-1) 7 1 = empty_World
   \<and> fst (get empty_World 5 256 7) = 0 \<and> set_block empty_World 5 256 7 1 = empty_World"
  using out_of_bounds_access [of "-1" empty_World 5 7 1]
    out_of_bounds_access [of 256 empty_World 5 7 1]
  by simp


section \<open>Reads leave the store alone\<close>

text \<open>
  C10. \<open>get\<close> is read-only: for every store and all coordinates the store after the
  call is the store before it; an absent chunk is answered with 0 and is still absent
  afterwards; and a second call with the same arguments returns the same value.
\<close>

theorem get_read_only:
  "snd (get w x y z) = w
   \<and> (getChunk w (chunkCoord x) (chunkCoord y) (chunkCoord z) = None \<longrightarrow>
        fst (get w x y z) = 0
        \<and> getChunk (snd (get w x y z)) (chunkCoord x) (chunkCoord y) (chunkCoord z) = None)
   \<and> fst (get (snd (get w x y z)) x y z) = fst (get w x y z)"
proof -
  have frame: "snd (get w x y z) = w"
    by (simp add: get_def Let_def split: option.split)
  have absent: "fst (get w x y z) = 0"
    if "getChunk w (chunkCoord x) (chunkCoord y) (chunkCoord z) = None"
    using that by (simp add: get_def Let_def)
  show ?thesis
    using frame absent by simp
qed

theorem get_read_only_witness:
  "getChunk empty_World (chunkCoord 3) (chunkCoord 4) (chunkCoord 5) = None
   \<and> snd (get empty_World 3 4 5) = empty_World
   \<and> fst (get empty_World 3 4 5) = 0
   \<and> fst (get (snd (get empty_World 3 4 5)) 3 4 5) = fst (get empty_World 3 4 5)"
proof -
  have h: "getChunk empty_World (chunkCoord 3) (chunkCoord 4) (chunkCoord 5) = None"
    by (simp add: getChunk_def empty_World_def)
  show ?thesis
    using h get_read_only [of empty_World 3 4 5] by simp
qed

section \<open>Rounding\<close>

lemma round_even_bounds: "\<lfloor>x\<rfloor> \<le> round_even x \<and> round_even x \<le> \<lceil>x\<rceil>"
proof -
  have "x - of_int \<lfloor>x\<rfloor> \<noteq> 0 \<Longrightarrow> \<lfloor>x\<rfloor> + 1 \<le> \<lceil>x\<rceil>"
    by (metis add.commute ceiling_altdef diff_eq_diff_eq diff_zero eq_iff of_int_floor_cancel zle_add1_eq_le zless_add1_eq floor_le_ceiling ceiling_diff_floor_le_1)
  then show ?thesis
    by (auto simp: round_even_def Let_def)
qed

lemma round_even_abs_le:
  assumes "\<bar>x\<bar> \<le> of_int N"
  shows "\<bar>round_even x\<bar> \<le> N"
proof -
  have "- of_int N \<le> x" "x \<le> of_int N" using assms by auto
  then have "- N \<le> \<lfloor>x\<rfloor>" "\<lceil>x\<rceil> \<le> N"
    by (simp_all add: le_floor_iff ceiling_le_iff)
  then show ?thesis using round_even_bounds [of x] by linarith
qed


lemma ilog2_bounds:
  assumes "0 < x"
  shows "2 powi ilog2 x \<le> x \<and> x < 2 powi (ilog2 x + 1)"
proof (cases "1 \<le> x")
  case True
  define n where "n = \<lfloor>x\<rfloor>"
  have n: "0 < n" "of_int n \<le> x" "x < of_int n + 1" using True by (simp_all add: n_def)
  have b: "2 ^ nat (bitlen n - 1) \<le> n" "n < 2 ^ nat (bitlen n)"
    using bitlen_bounds [OF n(1)] by simp_all
  have b1: "1 \<le> bitlen n" using n(1) by (simp add: bitlen_alt_def)
  have e: "ilog2 x = bitlen n - 1" using True by (simp add: ilog2_def n_def)
  have "(2::real) powi (bitlen n - 1) = of_int (2 ^ nat (bitlen n - 1))"
    using b1 by (simp add: power_int_def)
  also have "\<dots> \<le> of_int n" using b(1) by (simp only: of_int_le_iff)
  finally have lo: "2 powi (bitlen n - 1) \<le> x" using n(2) by simp
  have "n + 1 \<le> 2 ^ nat (bitlen n)" using b(2) by simp
  then have "of_int (n + 1) \<le> (of_int (2 ^ nat (bitlen n)) :: real)" by (simp only: of_int_le_iff)
  moreover have "(2::real) powi (bitlen n - 1 + 1) = of_int (2 ^ nat (bitlen n))"
    using b1 by (simp add: power_int_def)
  ultimately have hi: "x < 2 powi (bitlen n - 1 + 1)" using n(3) by simp
  show ?thesis unfolding e using lo hi by simp
next
  case False
  define y where "y = 1 / x"
  define m where "m = \<lceil>y\<rceil> - 1"
  have y1: "1 < y" using False assms by (simp add: y_def)
  have m: "0 < m" "of_int m < y" "y \<le> of_int m + 1"
    using y1 by (simp_all add: m_def less_ceiling_iff) linarith+
  have b: "2 ^ nat (bitlen m - 1) \<le> m" "m < 2 ^ nat (bitlen m)"
    using bitlen_bounds [OF m(1)] by simp_all
  have b1: "1 \<le> bitlen m" using m(1) by (simp add: bitlen_alt_def)
  have e: "ilog2 x = - bitlen m" using False by (simp add: ilog2_def m_def y_def)
  have x: "x = 1 / y" using assms by (simp add: y_def)
  have "m + 1 \<le> 2 ^ nat (bitlen m)" using b(2) by simp
  then have "of_int (m + 1) \<le> (of_int (2 ^ nat (bitlen m)) :: real)" by (simp only: of_int_le_iff)
  then have "y \<le> 2 ^ nat (bitlen m)" using m(3) by simp
  then have "1 / 2 ^ nat (bitlen m) \<le> 1 / y"
    using y1 by (intro divide_left_mono) auto
  moreover have "(2::real) powi (- bitlen m) = 1 / 2 ^ nat (bitlen m)"
    using b1 by (simp add: power_int_def field_simps)
  ultimately have lo: "2 powi (- bitlen m) \<le> x" using x by simp
  have "(of_int (2 ^ nat (bitlen m - 1)) :: real) \<le> of_int m" using b(1) by (simp only: of_int_le_iff)
  then have "(2::real) ^ nat (bitlen m - 1) \<le> of_int m" by simp
  then have "2 ^ nat (bitlen m - 1) < y" using m(2) by linarith
  then have "1 / y < 1 / 2 ^ nat (bitlen m - 1)"
    using y1 by (intro divide_strict_left_mono mult_pos_pos) auto
  moreover have "(2::real) powi (- bitlen m + 1) = 1 / 2 ^ nat (bitlen m - 1)"
  proof (cases "bitlen m = 1")
    case True
    then show ?thesis by simp
  next
    case False
    then have "- bitlen m + 1 < 0" using b1 by simp
    then show ?thesis by (simp add: power_int_def field_simps nat_diff_distrib)
  qed
  ultimately have hi: "x < 2 powi (- bitlen m + 1)" using x by simp
  show ?thesis unfolding e using lo hi by simp
qed

lemma ilog2_unique:
  assumes "0 < x" "2 powi e \<le> x" "x < 2 powi (e + 1)"
  shows "ilog2 x = e"
proof -
  have b: "2 powi ilog2 x \<le> x" "x < 2 powi (ilog2 x + 1)"
    using ilog2_bounds [OF assms(1)] by simp_all
  have "(2::real) powi ilog2 x < 2 powi (e + 1)" using b(1) assms(3) by simp
  then have "ilog2 x < e + 1"
    by (metis power_int_increasing not_less one_le_numeral)
  moreover have "(2::real) powi e < 2 powi (ilog2 x + 1)" using b(2) assms(2) by simp
  then have "e < ilog2 x + 1"
    by (metis power_int_increasing not_less one_le_numeral)
  ultimately show ?thesis by simp
qed


lemma fl_zero [simp]: "fl 0 = Fin 0"
  by (simp add: fl_def)

lemma fl_eval:
  assumes "2 ^ 52 \<le> \<bar>x\<bar> * 2 ^ s" "\<bar>x\<bar> * 2 ^ s < 2 ^ 53" "s \<le> 1074"
  shows "fl x = Fin (of_int (round_even (x * 2 ^ s)) / 2 ^ s)"
proof -
  have x0: "x \<noteq> 0" using assms(1) by auto
  have p: "(2::real) powi (52 - int s) = 2 ^ 52 / 2 ^ s"
    by (simp add: power_int_diff)
  have p1: "(2::real) powi (52 - int s + 1) = 2 ^ 53 / 2 ^ s"
    by (simp add: power_int_diff power_int_add)
  have "2 powi (52 - int s) \<le> \<bar>x\<bar>" "\<bar>x\<bar> < 2 powi (52 - int s + 1)"
    unfolding p p1 using assms(1,2) by (simp_all add: field_simps)
  then have e: "ilog2 \<bar>x\<bar> = 52 - int s"
    using x0 by (intro ilog2_unique) auto
  have m: "max (52 - int s) (- 1022) = 52 - int s" using assms(3) by simp
  have q: "(2::real) powi (- int s) = 1 / 2 ^ s"
    by (simp add: power_int_minus field_simps)
  have "\<bar>x * 2 ^ s\<bar> \<le> of_int (2 ^ 53)" using assms(2) by (simp add: abs_mult)
  then have "\<bar>round_even (x * 2 ^ s)\<bar> \<le> 2 ^ 53" by (rule round_even_abs_le)
  then have "\<bar>real_of_int (round_even (x * 2 ^ s))\<bar> \<le> 2 ^ 53"
    by (metis of_int_abs of_int_le_iff of_int_numeral of_int_power)
  moreover have "(1::real) \<le> 2 ^ s" by simp
  ultimately have "\<bar>real_of_int (round_even (x * 2 ^ s))\<bar> / 2 ^ s \<le> 2 ^ 53"
    by (smt (verit, best) divide_le_eq_1_pos frac_le zero_less_power divide_numeral_1)
  moreover have "(2::real) ^ 53 < 2 powi 1024" by simp
  ultimately have nov: "\<not> 2 powi 1024 \<le> \<bar>real_of_int (round_even (x * 2 ^ s)) / 2 ^ s\<bar>"
    by (simp add: abs_divide del: power_int_numeral)
  show ?thesis
    using x0 nov by (simp add: fl_def e m q Let_def del: power_int_numeral)
qed

lemma fl_bound:
  assumes "\<bar>x\<bar> \<le> 2 ^ k" "k \<le> 1023"
  shows "\<exists>y. fl x = Fin y \<and> \<bar>y\<bar> \<le> 2 ^ k"
proof (cases "x = 0")
  case True
  then show ?thesis by simp
next
  case False
  define e where "e = max (ilog2 \<bar>x\<bar>) (- 1022)"
  define q :: real where "q = 2 powi (e - 52)"
  define y where "y = of_int (round_even (x / q)) * q"
  have b: "2 powi ilog2 \<bar>x\<bar> \<le> \<bar>x\<bar>" using ilog2_bounds [of "\<bar>x\<bar>"] False by simp
  then have "(2::real) powi ilog2 \<bar>x\<bar> \<le> 2 powi int k" using assms(1) by simp
  then have "ilog2 \<bar>x\<bar> \<le> int k"
    by (rule power_int_le_imp_le_exp [rotated]) simp_all
  then have ek: "e \<le> int k" by (simp add: e_def)
  have q0: "0 < q" by (simp add: q_def)
  define N :: int where "N = 2 ^ nat (int k - e + 52)"
  have N: "real_of_int N * q = 2 ^ k"
  proof -
    have "real_of_int N = 2 powi (int k - e + 52)"
      using ek by (simp add: N_def power_int_def)
    then have "real_of_int N * q = 2 powi (int k - e + 52) * 2 powi (e - 52)"
      by (simp add: q_def)
    also have "\<dots> = 2 powi (int k - e + 52 + (e - 52))"
      by (subst power_int_add) simp_all
    finally show ?thesis by simp
  qed
  have "\<bar>x / q\<bar> \<le> real_of_int N"
    using assms(1) q0 N by (simp add: field_simps abs_mult)
  then have "\<bar>round_even (x / q)\<bar> \<le> N" by (rule round_even_abs_le)
  then have "\<bar>real_of_int (round_even (x / q))\<bar> \<le> real_of_int N"
    by (metis of_int_abs of_int_le_iff)
  then have "\<bar>y\<bar> \<le> real_of_int N * q"
    using q0 by (simp add: y_def abs_mult mult_right_mono)
  then have yb: "\<bar>y\<bar> \<le> 2 ^ k" using N by simp
  have "(2::real) ^ k \<le> 2 ^ 1023" using assms(2) by (intro power_increasing) simp_all
  moreover have "(2::real) ^ 1023 < 2 powi 1024" by simp
  ultimately have "\<not> 2 powi 1024 \<le> \<bar>y\<bar>" using yb by linarith
  then have "fl x = Fin y"
    using False by (simp add: fl_def Let_def e_def q_def y_def del: power_int_numeral)
  then show ?thesis using yb by blast
qed





section \<open>Finite noise values\<close>

lemma mag_leE:
  assumes "mag_le k d"
  obtains v where "d = Fin v" "\<bar>v\<bar> \<le> 2 ^ k"
  using assms by (cases d) (auto simp: mag_le_def)

lemma mag_le_Fin [simp]: "mag_le k (Fin v) \<longleftrightarrow> \<bar>v\<bar> \<le> 2 ^ k"
  by (simp add: mag_le_def)

lemma mag_le_mono: "mag_le j d \<Longrightarrow> j \<le> k \<Longrightarrow> mag_le k d"
proof -
  assume a: "mag_le j d" "j \<le> k"
  obtain v where v: "d = Fin v" "\<bar>v\<bar> \<le> 2 ^ j" using a(1) by (rule mag_leE)
  have "(2::real) ^ j \<le> 2 ^ k" using a(2) by (intro power_increasing) simp_all
  with v(2) have "\<bar>v\<bar> \<le> 2 ^ k" by linarith
  then show ?thesis by (simp add: v(1))
qed

lemma mag_le_fl: "\<bar>x\<bar> \<le> 2 ^ k \<Longrightarrow> k \<le> 1023 \<Longrightarrow> mag_le k (fl x)"
  using fl_bound [of x k] by auto

lemma mag_le_dmul:
  assumes "mag_le j a" "mag_le k b" "j + k \<le> 1023"
  shows "mag_le (j + k) (dmul a b)"
proof -
  obtain u where u: "a = Fin u" "\<bar>u\<bar> \<le> 2 ^ j" using assms(1) by (rule mag_leE)
  obtain v where v: "b = Fin v" "\<bar>v\<bar> \<le> 2 ^ k" using assms(2) by (rule mag_leE)
  have "\<bar>u * v\<bar> \<le> 2 ^ j * 2 ^ k"
    unfolding abs_mult using u(2) v(2) by (intro mult_mono) simp_all
  then have "\<bar>u * v\<bar> \<le> 2 ^ (j + k)" by (simp add: power_add)
  then show ?thesis unfolding u(1) v(1) dmul.simps using assms(3) by (rule mag_le_fl)
qed

lemma mag_le_dadd:
  assumes "mag_le k a" "mag_le k b" "k < 1023"
  shows "mag_le (Suc k) (dadd a b)"
proof -
  obtain u where u: "a = Fin u" "\<bar>u\<bar> \<le> 2 ^ k" using assms(1) by (rule mag_leE)
  obtain v where v: "b = Fin v" "\<bar>v\<bar> \<le> 2 ^ k" using assms(2) by (rule mag_leE)
  have "\<bar>u + v\<bar> \<le> 2 ^ Suc k" using u(2) v(2) by simp
  then show ?thesis unfolding u(1) v(1) dadd.simps using assms(3) by (intro mag_le_fl) simp_all
qed

lemma mag_le_dneg: "mag_le k a \<Longrightarrow> mag_le k (dneg a)"
  by (cases a) (simp_all add: mag_le_def)

lemma mag_le_dsub:
  assumes "mag_le k a" "mag_le k b" "k < 1023"
  shows "mag_le (Suc k) (dsub a b)"
  unfolding dsub_def using assms by (intro mag_le_dadd mag_le_dneg)


lemma mag_le_lerp:
  assumes "mag_le k a" "mag_le k b" "mag_le j t" "j + k < 1000"
  shows "mag_le (Suc (Suc (j + k))) (lerp a b t)"
proof -
  have "mag_le (Suc k) (dsub b a)" using assms by (intro mag_le_dsub) simp_all
  then have "mag_le (j + Suc k) (dmul t (dsub b a))"
    using assms by (intro mag_le_dmul) simp_all
  then have m: "mag_le (Suc (j + k)) (dmul t (dsub b a))" by simp
  have "mag_le (Suc (j + k)) a" using assms(1) by (rule mag_le_mono) simp
  then show ?thesis
    unfolding lerp_def using m assms(4) by (intro mag_le_dadd) simp_all
qed


lemma perm_at_Some:
  "length perm = 512 \<Longrightarrow> 0 \<le> i \<Longrightarrow> i < 512 \<Longrightarrow>
   \<exists>v. perm_at perm i = Some v \<and> 0 \<le> v \<and> v \<le> 255"
proof -
  assume h: "length perm = 512" "0 \<le> i" "i < 512"
  have "uint (perm ! nat i) < 2 ^ 8"
    using uint_bounded [of "perm ! nat i"] by simp
  then show ?thesis using h by (simp add: perm_at_def)
qed

lemma mag_le_corner:
  assumes "length perm = 512" "0 \<le> i" "i \<le> 256" "0 \<le> k" "k \<le> 256"
  shows "mag_le 0 (corner perm i k)"
proof -
  obtain p where p: "perm_at perm i = Some p" "0 \<le> p" "p \<le> 255"
    using perm_at_Some [OF assms(1), of i] assms(2,3) by auto
  obtain v where v: "perm_at perm (p + k) = Some v" "0 \<le> v" "v \<le> 255"
    using perm_at_Some [OF assms(1), of "p + k"] p assms(4,5) by auto
  have "\<bar>real_of_int v / 255\<bar> \<le> 2 ^ 0" using v by simp
  then have "mag_le 0 (fl (real_of_int v / 255))" by (intro mag_le_fl) simp_all
  then show ?thesis by (simp add: corner_def p(1) v(1))
qed




lemma fl_one [simp]: "fl 1 = Fin 1"
  using fl_eval [of 1 52] by (simp add: round_even_def)





section \<open>Noise bounds\<close>

subsection \<open>Entries of the table\<close>

lemma length_ValueNoise: "length (ValueNoise s) = 512"
  by (simp add: ValueNoise_def Let_def split: prod.split)

lemma rng_next_range: "0 \<le> fst (rng_next st) \<and> fst (rng_next st) < 1"
proof -
  obtain w :: "32 word" where w: "fst (rng_next st) = real_of_int (uint w) / 4294967296"
    unfolding rng_next_def Let_def fst_conv by blast
  define u where "u = uint w"
  have "0 \<le> u" "u < 4294967296" using uint_bounded [of w] by (simp_all add: u_def)
  then have "0 \<le> real_of_int u" "real_of_int u < 4294967296" by linarith+
  then show ?thesis unfolding w u_def [symmetric] by simp
qed

text \<open>A step of the shuffle at index \<open>i\<close> swaps two entries at or below \<open>i\<close>.\<close>

lemma shuffle_step_high:
  assumes "0 \<le> i" "nat i < n"
  shows "fst (shuffle_step i (p, st)) ! n = p ! n"
proof -
  define j where "j = \<lfloor>fst (rng_next st) * real_of_int (i + 1)\<rfloor>"
  have r: "0 \<le> fst (rng_next st)" "fst (rng_next st) < 1" using rng_next_range [of st] by simp_all
  have "fst (rng_next st) * real_of_int (i + 1) < 1 * real_of_int (i + 1)"
    using r(2) assms(1) by (intro mult_strict_right_mono) simp_all
  then have "j < i + 1" unfolding j_def by (simp only: floor_less_iff mult_1)
  then have jn: "nat j \<noteq> n" "nat i \<noteq> n" using assms by simp_all
  have "fst (shuffle_step i (p, st)) = (p[nat i := p ! nat j])[nat j := p ! nat i]"
    by (simp add: shuffle_step_def Let_def case_prod_beta j_def)
  then show ?thesis using jn by simp
qed

lemma shuffle_fold_high:
  assumes "\<forall>i \<in> set is. 0 \<le> i \<and> nat i < n"
  shows "fst (fold shuffle_step is (p, st)) ! n = p ! n"
  using assms
proof (induction "is" arbitrary: p st)
  case Nil
  show ?case by simp
next
  case (Cons i "is")
  obtain p1 st1 where s1: "shuffle_step i (p, st) = (p1, st1)" by (cases "shuffle_step i (p, st)")
  have "p1 ! n = p ! n"
    using shuffle_step_high [of i n p st] Cons.prems by (simp add: s1)
  moreover have "fst (fold shuffle_step is (p1, st1)) ! n = p1 ! n"
    using Cons.prems by (intro Cons.IH) simp
  ultimately show ?case by (simp add: s1)
qed

lemma ValueNoise_nth:
  assumes "n < 256"
  shows "ValueNoise s ! n = fst (fold shuffle_step (rev [1..255]) (map word_of_int [0..255], mulberry32 s)) ! n"
proof -
  have "int n AND 255 = int n"
  proof -
    have "take_bit 8 (int n) = int n" using assms by (intro take_bit_int_eq_self) simp_all
    then have "int n AND mask 8 = int n" by (simp add: take_bit_eq_mask)
    moreover have "mask 8 = (255::int)" by (simp add: mask_eq_exp_minus_1)
    ultimately show ?thesis by simp
  qed
  then show ?thesis
    using assms by (simp add: ValueNoise_def Let_def case_prod_beta nth_upto)
qed

text \<open>The first three draws of the generator seeded with 10399, which swap the
  entries 255, 254 and 253 of the table with the entries 169, 171 and 169.\<close>

lemma draw_0: "rng_next 10399 = (2843933600 / 4294967296, 1831576212)"
  by (simp add: rng_next_def Let_def)

lemma draw_1: "rng_next 1831576212 = (2892244420 / 4294967296, 3663142025)"
  by (simp add: rng_next_def Let_def)

lemma draw_2: "rng_next 3663142025 = (2870472282 / 4294967296, 1199740542)"
  by (simp add: rng_next_def Let_def)

lemma upto_255: "rev [1..255] = [255, 254, 253] @ rev [1..252]"
proof -
  have "[1..255] = [1..252] @ [252 + 1..255]" by (rule upto_split2) simp_all
  moreover have "[253..255] = [253, 254, 255::int]" by (simp add: upto.simps)
  ultimately show ?thesis by simp
qed

lemma table0_nth: "n < 256 \<Longrightarrow> (map word_of_int [0..255] :: 8 word list) ! n = word_of_int (int n)"
  by (simp add: nth_upto)

lemma first_steps_10399:
  "\<exists>p. fold shuffle_step [255, 254, 253] (map word_of_int [0..255], mulberry32 10399)
          = (p, 1199740542)
       \<and> p ! 253 = 255 \<and> p ! 254 = 171 \<and> p ! 255 = 169"
proof -
  let ?p0 = "map word_of_int [0..255] :: 8 word list"
  have s0: "shuffle_step 255 (?p0, 10399) = (?p0[255 := 169, 169 := 255], 1831576212)"
    by (simp add: shuffle_step_def draw_0 table0_nth del: upto.simps)
  let ?p1 = "?p0[255 := 169, 169 := 255]"
  have s1: "shuffle_step 254 (?p1, 1831576212) = (?p1[254 := 171, 171 := 254], 3663142025)"
    by (simp add: shuffle_step_def draw_1 table0_nth del: upto.simps)
  let ?p2 = "?p1[254 := 171, 171 := 254]"
  have s2: "shuffle_step 253 (?p2, 3663142025) = (?p2[253 := 255, 169 := 253], 1199740542)"
    by (simp add: shuffle_step_def draw_2 table0_nth del: upto.simps)
  let ?p3 = "?p2[253 := 255, 169 := 253]"
  have f: "fold shuffle_step [255, 254, 253] (?p0, mulberry32 10399) = (?p3, 1199740542)"
    by (simp add: mulberry32_def s0 s1 s2 del: upto.simps)
  have t: "?p3 ! 253 = 255" "?p3 ! 254 = 171" "?p3 ! 255 = 169"
    by (simp_all del: upto.simps)
  show ?thesis using f t by blast
qed

lemma table_10399:
  "perm_at (ValueNoise 10399) 253 = Some 255"
  "perm_at (ValueNoise 10399) 254 = Some 171"
  "perm_at (ValueNoise 10399) 255 = Some 169"
proof -
  obtain p where p: "fold shuffle_step [255, 254, 253] (map word_of_int [0..255], mulberry32 10399)
      = (p, 1199740542)" "p ! 253 = 255" "p ! 254 = 171" "p ! 255 = 169"
    using first_steps_10399 by blast
  have keep: "fst (fold shuffle_step (rev [1..252]) (p, 1199740542)) ! n = p ! n"
    if "252 < n" for n
    by (rule shuffle_fold_high) (use that in auto)
  have "fold shuffle_step (rev [1..255]) (map word_of_int [0..255], mulberry32 10399)
      = fold shuffle_step (rev [1..252]) (p, 1199740542)"
    by (simp only: upto_255 fold_append o_apply p(1))
  then have nth: "ValueNoise 10399 ! n = p ! n" if "252 < n" "n < 256" for n
    using that keep [of n] by (simp only: ValueNoise_nth)
  show "perm_at (ValueNoise 10399) 253 = Some 255"
    "perm_at (ValueNoise 10399) 254 = Some 171"
    "perm_at (ValueNoise 10399) 255 = Some 169"
    using nth [of 253] nth [of 254] nth [of 255]
    by (simp_all add: perm_at_def length_ValueNoise p(2-4))
qed


subsection \<open>The operations of the run\<close>

text \<open>The arithmetic of \<open>sample\<close> at \<open>x = 255 - 2^-26\<close>, \<open>z = 84\<close>, one rounding each.\<close>

lemma ev_xf: "dsub (Fin (17112760319 / 67108864)) (Fin 254) = Fin (67108863 / 67108864)"
  using fl_eval [of "(17112760319 / 67108864) + - 254" 53] by (simp add: round_even_def dsub_def)

lemma ev_tt: "dmul (Fin (67108863 / 67108864)) (Fin (67108863 / 67108864)) = Fin (4503599493152769 / 4503599627370496)"
  using fl_eval [of "(67108863 / 67108864) * (67108863 / 67108864)" 53] by (simp add: round_even_def)

lemma ev_ttt: "dmul (Fin (4503599493152769 / 4503599627370496)) (Fin (67108863 / 67108864)) = Fin (4503599426043907 / 4503599627370496)"
  using fl_eval [of "(4503599493152769 / 4503599627370496) * (67108863 / 67108864)" 53] by (simp add: round_even_def)

lemma ev_t6: "dmul (Fin (67108863 / 67108864)) (Fin 6) = Fin (201326589 / 33554432)"
  using fl_eval [of "(67108863 / 67108864) * 6" 50] by (simp add: round_even_def)

lemma ev_t6m: "dsub (Fin (201326589 / 33554432)) (Fin 15) = Fin (- (301989891 / 33554432))"
  using fl_eval [of "(201326589 / 33554432) + - 15" 49] by (simp add: round_even_def dsub_def)

lemma ev_tb: "dmul (Fin (67108863 / 67108864)) (Fin (- (301989891 / 33554432))) = Fin (- (5066549555625983 / 562949953421312))"
  using fl_eval [of "(67108863 / 67108864) * (- (301989891 / 33554432))" 49] by (simp add: round_even_def)

lemma ev_tb10: "dadd (Fin (- (5066549555625983 / 562949953421312))) (Fin 10) = Fin (562949978587137 / 562949953421312)"
  using fl_eval [of "(- (5066549555625983 / 562949953421312)) + 10" 52] by (simp add: round_even_def)

lemma ev_u: "dmul (Fin (4503599426043907 / 4503599627370496)) (Fin (562949978587137 / 562949953421312)) = Fin (2251799813685249 / 2251799813685248)"
  using fl_eval [of "(4503599426043907 / 4503599627370496) * (562949978587137 / 562949953421312)" 52] by (simp add: round_even_def)

lemma ev_aa: "ddiv (Fin 169) (Fin 255) = Fin (5969477153142069 / 9007199254740992)"
  using fl_eval [of "169 / 255" 53] by (simp add: round_even_def)

lemma ev_d: "dsub (Fin 1) (Fin (5969477153142069 / 9007199254740992)) = Fin (3037722101598923 / 9007199254740992)"
  using fl_eval [of "1 + - (5969477153142069 / 9007199254740992)" 54] by (simp add: round_even_def dsub_def)

lemma ev_ud: "dmul (Fin (2251799813685249 / 2251799813685248)) (Fin (3037722101598923 / 9007199254740992)) = Fin (6075444203197849 / 18014398509481984)"
  using fl_eval [of "(2251799813685249 / 2251799813685248) * (3037722101598923 / 9007199254740992)" 54] by (simp add: round_even_def)

lemma ev_l1: "dadd (Fin (5969477153142069 / 9007199254740992)) (Fin (6075444203197849 / 18014398509481984)) = Fin (4503599627370497 / 4503599627370496)"
  using fl_eval [of "(5969477153142069 / 9007199254740992) + (6075444203197849 / 18014398509481984)" 52] by (simp add: round_even_def)

lemma ev_l1_0: "dadd (Fin (4503599627370497 / 4503599627370496)) (Fin 0) = Fin (4503599627370497 / 4503599627370496)"
  using fl_eval [of "(4503599627370497 / 4503599627370496) + 0" 52] by (simp add: round_even_def)

lemma ev_x1: "dmul (Fin (17112760319 / 67108864)) (Fin 1) = Fin (17112760319 / 67108864)"
  using fl_eval [of "(17112760319 / 67108864) * 1" 45] by (simp add: round_even_def)

lemma ev_z1: "dmul (Fin 84) (Fin 1) = Fin 84"
  using fl_eval [of "84 * 1" 46] by (simp add: round_even_def)

lemma ev_s1: "dmul (Fin (4503599627370497 / 4503599627370496)) (Fin 1) = Fin (4503599627370497 / 4503599627370496)"
  using fl_eval [of "(4503599627370497 / 4503599627370496) * 1" 52] by (simp add: round_even_def)

lemma ev_0s: "dadd (Fin 0) (Fin (4503599627370497 / 4503599627370496)) = Fin (4503599627370497 / 4503599627370496)"
  using fl_eval [of "0 + (4503599627370497 / 4503599627370496)" 52] by (simp add: round_even_def)

lemma ev_sdiv: "ddiv (Fin (4503599627370497 / 4503599627370496)) (Fin 1) = Fin (4503599627370497 / 4503599627370496)"
  using fl_eval [of "(4503599627370497 / 4503599627370496) / 1" 52] by (simp add: round_even_def)

lemma ev_m15: "dsub (Fin 0) (Fin 15) = Fin (- 15)"
  using fl_eval [of "0 + - 15" 49] by (simp add: round_even_def dsub_def)

lemma ev_10: "dadd (Fin 0) (Fin 10) = Fin 10"
  using fl_eval [of "0 + 10" 49] by (simp add: round_even_def)

subsection \<open>The sample\<close>

lemma dmul_zero_left: "mag_le k b \<Longrightarrow> dmul (Fin 0) b = Fin 0"
  by (auto elim!: mag_leE)

lemma lerp_zero:
  assumes "mag_le k a" "mag_le k b" "k < 1023"
  shows "lerp a b (Fin 0) = dadd a (Fin 0)"
proof -
  have "mag_le (Suc k) (dsub b a)" using assms by (intro mag_le_dsub)
  then show ?thesis unfolding lerp_def by (simp add: dmul_zero_left)
qed

lemma fade_zero: "fade (Fin 0) = Fin 0"
proof -
  have z: "dmul (Fin 0) (Fin b) = Fin 0" for b by simp
  show ?thesis unfolding fade_def by (simp only: z ev_m15 ev_10)
qed

lemma fade_high:
  "fade (Fin (67108863 / 67108864)) = Fin (2251799813685249 / 2251799813685248)"
  unfolding fade_def by (simp only: ev_tt ev_ttt ev_t6 ev_t6m ev_tb ev_tb10 ev_u)

lemma corners_10399:
  "corner (ValueNoise 10399) 254 84 = Fin (5969477153142069 / 9007199254740992)"
  "corner (ValueNoise 10399) 255 84 = Fin 1"
proof -
  have a: "perm_at (ValueNoise 10399) (171 + 84) = Some 169"
    "perm_at (ValueNoise 10399) (169 + 84) = Some 255"
    using table_10399 by simp_all
  have d: "ddiv (Fin (of_int 169)) (Fin 255) = Fin (5969477153142069 / 9007199254740992)"
    "ddiv (Fin (of_int 255)) (Fin 255) = Fin 1"
    using ev_aa by simp_all
  show "corner (ValueNoise 10399) 254 84 = Fin (5969477153142069 / 9007199254740992)"
    "corner (ValueNoise 10399) 255 84 = Fin 1"
    unfolding corner_def by (simp_all only: table_10399 a d option.case)
qed

lemma sample_10399:
  "sample (ValueNoise 10399) (Fin (17112760319 / 67108864)) (Fin 84)
     = Fin (4503599627370497 / 4503599627370496)"
proof -
  let ?T = "ValueNoise 10399"
  let ?u = "Fin (2251799813685249 / 2251799813685248)"
  have fx: "dfloor (Fin (17112760319 / 67108864)) = Fin 254" by simp
  have fz: "dfloor (Fin 84) = Fin 84" by simp
  have xi: "index255 (Fin 254) = 254" "index255 (Fin 84) = 84" by simp_all
  have p: "(254::int) + 1 = 255" "(84::int) + 1 = 85" by simp_all
  have zf: "dsub (Fin 84) (Fin 84) = Fin 0" by (simp add: dsub_def)
  have l1: "lerp (corner ?T 254 84) (corner ?T 255 84) ?u
      = Fin (4503599627370497 / 4503599627370496)"
    unfolding lerp_def by (simp only: corners_10399 ev_d ev_ud ev_l1)
  have c: "mag_le 0 (corner ?T 254 85)" "mag_le 0 (corner ?T 255 85)"
    by (intro mag_le_corner length_ValueNoise; simp)+
  have u: "mag_le 1 ?u" by simp
  have l2: "mag_le 3 (lerp (corner ?T 254 85) (corner ?T 255 85) ?u)"
    using mag_le_lerp [OF c u] by (simp add: numeral_3_eq_3)
  have "lerp (Fin (4503599627370497 / 4503599627370496))
      (lerp (corner ?T 254 85) (corner ?T 255 85) ?u) (Fin 0)
      = Fin (4503599627370497 / 4503599627370496)"
    using lerp_zero [OF _ l2, of "Fin (4503599627370497 / 4503599627370496)"]
    by (simp only: ev_l1_0) simp
  then show ?thesis
    unfolding sample_def Let_def fx fz xi p ev_xf zf fade_zero fade_high l1 .
qed

lemma octave_10399:
  "octave (ValueNoise 10399) (Fin (17112760319 / 67108864)) (Fin 84) 1 (Fin (1 / 2)) (Fin 1)
     = Fin (4503599627370497 / 4503599627370496)"
proof -
  have n: "nat 1 = Suc 0" by simp
  have m: "dadd (Fin 0) (Fin 1) = Fin 1" by simp
  show ?thesis
    unfolding octave_def n octave_loop.simps ev_x1 ev_z1 sample_10399 ev_s1 ev_0s m
    by (simp only: prod.case ev_sdiv)
qed

text \<open>
  C6. The noise is not bounded by 1. In the table of seed 10399 the cell of
  \<open>x = 255 - 2^-26\<close>, \<open>z = 84\<close> has the corner values \<open>169 / 255\<close> and \<open>1\<close> on the
  side \<open>z = 84\<close>. The weight \<open>fade (xf)\<close> of \<open>xf = 1 - 2^-26\<close> is rounded to
  \<open>1 + 2^-51\<close>, above 1, and the interpolation \<open>a + u * (b - a)\<close> overshoots the
  corner value \<open>b = 1\<close>: \<open>sample\<close> returns \<open>1 + 2^-52\<close>, and so does \<open>octave\<close> with
  one octave, persistence \<open>0.5\<close> and scale 1. With no octave, \<open>octave\<close> divides 0 by
  the empty amplitude total 0 and returns \<open>NaN\<close>.
\<close>

theorem noise_exceeds_one:
  "sample (ValueNoise 10399) (Fin (255 - 1 / 2 ^ 26)) (Fin 84) = Fin (1 + 1 / 2 ^ 52)
   \<and> octave (ValueNoise 10399) (Fin (255 - 1 / 2 ^ 26)) (Fin 84) 1 (Fin (1 / 2)) (Fin 1)
       = Fin (1 + 1 / 2 ^ 52)
   \<and> (1::real) < 1 + 1 / 2 ^ 52
   \<and> octave (ValueNoise 10399) (Fin (255 - 1 / 2 ^ 26)) (Fin 84) 0 (Fin (1 / 2)) (Fin 1) = NaN"
  using sample_10399 octave_10399 by (simp add: octave_def)


section \<open>Surface height\<close>














section \<open>The store during generation\<close>

subsection \<open>Folds\<close>

lemma fold_invariant:
  "(\<And>x s. P s \<Longrightarrow> P (f x s)) \<Longrightarrow> P s \<Longrightarrow> P (fold f xs s)"
  by (induction xs arbitrary: s) auto

subsection \<open>The set of generated columns\<close>

lemma gc_getOrCreateChunk [simp]:
  "generatedColumns (snd (getOrCreateChunk w cx cy cz)) = generatedColumns w"
  by (simp add: getOrCreateChunk_def Let_def split: option.split)

lemma gc_markDirty [simp]: "generatedColumns (markDirty w key chunk) = generatedColumns w"
  by (simp add: markDirty_def)

lemma gc_set_block [simp]: "generatedColumns (set_block w x y z b) = generatedColumns w"
  by (simp add: set_block_def Let_def split: prod.split)
     (metis gc_getOrCreateChunk snd_conv)

lemma get_pair: "get w x y z = (get_block w x y z, w)"
  by (simp add: get_block_def get_def Let_def split: option.split)

lemma oak_leaf_eq:
  "oak_leaf x lb z dy r (dx, dz) w =
     (if \<bar>dx\<bar> = r \<and> \<bar>dz\<bar> = r then w
      else if get_block w (x + dx) (lb + dy) (z + dz) = AIR
           then set_block w (x + dx) (lb + dy) (z + dz) OAK_LEAVES else w)"
  by (simp add: oak_leaf_def Let_def get_pair)

lemma gc_oak_trunk [simp]: "generatedColumns (oak_trunk w x y z h) = generatedColumns w"
  unfolding oak_trunk_def by (rule fold_invariant) simp_all

lemma gc_oak_leaf [simp]:
  "generatedColumns (oak_leaf x lb z dy r d w) = generatedColumns w"
  by (cases d) (simp add: oak_leaf_eq)

lemma gc_oak_layer [simp]: "generatedColumns (oak_layer x lb z dy w) = generatedColumns w"
  unfolding oak_layer_def Let_def by (rule fold_invariant) simp_all

lemma gc_oak_layers [simp]: "generatedColumns (oak_layers w x lb z) = generatedColumns w"
  unfolding oak_layers_def by (rule fold_invariant) simp_all

lemma gc_oak_cap [simp]: "generatedColumns (oak_cap w x lb z) = generatedColumns w"
  by (simp add: oak_cap_def)

lemma gc_OakTree_generate [simp]:
  "generatedColumns (fst (OakTree_generate w x y z rand)) = generatedColumns w"
  by (simp add: OakTree_generate_def Let_def split: prod.split)

lemma gc_structure_generate [simp]:
  "generatedColumns (fst (structure_generate s w x y z rand)) = generatedColumns w"
  by (cases s) simp

lemma gc_terrain_layer [simp]:
  "generatedColumns (terrain_layer sl heights maxH chunkX chunkZ cy w) = generatedColumns w"
  by (simp add: terrain_layer_def Let_def split: prod.split)
     (metis gc_getOrCreateChunk snd_conv)

lemma gc_terrain [simp]:
  "generatedColumns (terrain sl heights maxH w chunkX chunkZ) = generatedColumns w"
  unfolding terrain_def by (rule fold_invariant) simp_all

lemma gc_attempt_step [simp]:
  "generatedColumns (fst (attempt_step sl heights wx0 wz0 s st)) = generatedColumns (fst st)"
  by (cases st) (simp add: attempt_step_def Let_def split: prod.split)

lemma gc_entry_step [simp]:
  "generatedColumns (fst (entry_step sl heights wx0 wz0 e st)) = generatedColumns (fst st)"
  unfolding entry_step_def
  by (rule fold_invariant [where P = "\<lambda>s. generatedColumns (fst s) = generatedColumns (fst st)"])
     simp_all

lemma gc_place_structures [simp]:
  "generatedColumns (place_structures g heights w chunkX chunkZ) = generatedColumns w"
proof -
  have "generatedColumns (fst (fold (entry_step sl heights wx0 wz0) es st))
      = generatedColumns (fst st)" for sl wx0 wz0 es st
    by (rule fold_invariant [where P = "\<lambda>s. generatedColumns (fst s) = generatedColumns (fst st)"])
       simp_all
  then show ?thesis by (simp add: place_structures_def Let_def)
qed

lemma gc_generateChunk:
  "generatedColumns (generateChunk g w cx cz) = insert (cx, cz) (generatedColumns w)"
  by (auto simp: generateChunk_def Let_def isColumnGenerated_def markColumnGenerated_def
      columnKey_def split: prod.split)

subsection \<open>Loaded chunks stay loaded during generation\<close>

lemma chunks_kept_refl: "chunks_kept w w"
  by (simp add: chunks_kept_def)

lemma chunks_kept_trans: "chunks_kept a b \<Longrightarrow> chunks_kept b c \<Longrightarrow> chunks_kept a c"
  unfolding chunks_kept_def by (metis (no_types, lifting))

lemma chunks_kept_fold:
  assumes "\<And>x s. chunks_kept s (f x s)"
  shows "chunks_kept w (fold f xs w)"
proof (rule fold_invariant [where P = "chunks_kept w"])
  show "chunks_kept w w" by (rule chunks_kept_refl)
  show "chunks_kept w (f x s)" if "chunks_kept w s" for x s
    using that assms [of s x] by (rule chunks_kept_trans)
qed

lemma chunks_kept_fold_fst:
  assumes "\<And>x s. chunks_kept (fst s) (fst (f x s))"
  shows "chunks_kept (fst st) (fst (fold f xs st))"
proof (rule fold_invariant [where P = "\<lambda>s. chunks_kept (fst st) (fst s)"])
  show "chunks_kept (fst st) (fst st)" by (rule chunks_kept_refl)
  show "chunks_kept (fst st) (fst (f x s))" if "chunks_kept (fst st) (fst s)" for x s
    using that assms [of s x] by (rule chunks_kept_trans)
qed

lemma fst_getOrCreateChunk: "fst (getOrCreateChunk w cx cy cz) = chunk_or_new w cx cy cz"
  by (simp add: getOrCreateChunk_def chunk_or_new_def Let_def split: option.split)

lemma lookup_getOrCreateChunk:
  "DAList.lookup (chunks (snd (getOrCreateChunk w cx cy cz))) key =
     (if key = chunkKey cx cy cz then Some (chunk_or_new w cx cy cz)
      else DAList.lookup (chunks w) key)"
  by (simp add: getOrCreateChunk_def chunk_or_new_def Let_def DAList.lookup_update
      split: option.split)

lemma lookup_markDirty:
  "DAList.lookup (chunks (markDirty w key chunk)) k =
     (if k = key then Some (chunk\<lparr>isDirty := True\<rparr>) else DAList.lookup (chunks w) k)"
  by (simp add: markDirty_def DAList.lookup_update)

lemma set_block_eq:
  "set_block w x y z b =
     (if y < 0 \<or> y \<ge> HEIGHT then w
      else markDirty (snd (getOrCreateChunk w (chunkCoord x) (chunkCoord y) (chunkCoord z)))
             (chunkKey (chunkCoord x) (chunkCoord y) (chunkCoord z))
             (setBlock (chunk_or_new w (chunkCoord x) (chunkCoord y) (chunkCoord z))
                (localCoord x) (localCoord y) (localCoord z) b))"
  by (simp add: set_block_def Let_def case_prod_beta fst_getOrCreateChunk)

lemma lookup_set_block:
  "DAList.lookup (chunks (set_block w x y z b)) key =
     (if 0 \<le> y \<and> y < HEIGHT \<and> key = chunkKey (chunkCoord x) (chunkCoord y) (chunkCoord z)
      then Some ((setBlock (chunk_or_new w (chunkCoord x) (chunkCoord y) (chunkCoord z))
                   (localCoord x) (localCoord y) (localCoord z) b)\<lparr>isDirty := True\<rparr>)
      else DAList.lookup (chunks w) key)"
  by (auto simp: set_block_eq lookup_markDirty lookup_getOrCreateChunk)

lemma chunk_or_new_coords:
  "DAList.lookup (chunks w) (chunkKey cx cy cz) = Some c \<Longrightarrow>
     chunk_x (chunk_or_new w cx cy cz) = chunk_x c \<and> chunk_z (chunk_or_new w cx cy cz) = chunk_z c"
  by (simp add: chunk_or_new_def)

lemma chunks_kept_set_block: "chunks_kept w (set_block w x y z b)"
  unfolding chunks_kept_def lookup_set_block
  by (auto simp: setBlock_def dest: chunk_or_new_coords)

lemma chunks_kept_oak_trunk: "chunks_kept w (oak_trunk w x y z h)"
  unfolding oak_trunk_def by (rule chunks_kept_fold) (rule chunks_kept_set_block)

lemma chunks_kept_oak_leaf: "chunks_kept w (oak_leaf x lb z dy r d w)"
  by (cases d) (simp add: oak_leaf_eq chunks_kept_refl chunks_kept_set_block)

lemma chunks_kept_oak_layer: "chunks_kept w (oak_layer x lb z dy w)"
  unfolding oak_layer_def Let_def by (rule chunks_kept_fold) (rule chunks_kept_oak_leaf)

lemma chunks_kept_oak_layers: "chunks_kept w (oak_layers w x lb z)"
  unfolding oak_layers_def by (rule chunks_kept_fold) (rule chunks_kept_oak_layer)

lemma chunks_kept_oak_cap: "chunks_kept w (oak_cap w x lb z)"
  unfolding oak_cap_def by (rule chunks_kept_set_block)

lemma chunks_kept_OakTree_generate: "chunks_kept w (fst (OakTree_generate w x y z rand))"
  unfolding OakTree_generate_def Let_def case_prod_beta fst_conv
  by (blast intro: chunks_kept_trans chunks_kept_oak_trunk chunks_kept_oak_layers
      chunks_kept_oak_cap)

lemma chunks_kept_structure_generate:
  "chunks_kept w (fst (structure_generate s w x y z rand))"
  by (cases s) (simp add: chunks_kept_OakTree_generate)

lemma chunks_kept_attempt_step:
  "chunks_kept (fst st) (fst (attempt_step sl heights wx0 wz0 s st))"
  by (cases st)
     (simp add: attempt_step_def Let_def case_prod_beta chunks_kept_refl
        chunks_kept_structure_generate)

lemma chunks_kept_entry_step:
  "chunks_kept (fst st) (fst (entry_step sl heights wx0 wz0 e st))"
  unfolding entry_step_def by (rule chunks_kept_fold_fst) (rule chunks_kept_attempt_step)

lemma chunks_kept_place_structures:
  "chunks_kept w (place_structures g heights w chunkX chunkZ)"
proof -
  have "chunks_kept (fst (w, r)) (fst (fold (entry_step sl heights wx0 wz0) es (w, r)))"
    for sl wx0 wz0 es r
    by (rule chunks_kept_fold_fst) (rule chunks_kept_entry_step)
  then show ?thesis by (simp add: place_structures_def Let_def)
qed

lemma fill_column_coords:
  "chunk_x (fill_column sl heights cyMin p c) = chunk_x c
   \<and> chunk_y (fill_column sl heights cyMin p c) = chunk_y c
   \<and> chunk_z (fill_column sl heights cyMin p c) = chunk_z c
   \<and> isDirty (fill_column sl heights cyMin p c) = isDirty c"
proof -
  have "chunk_x (fold f xs c) = chunk_x c \<and> chunk_y (fold f xs c) = chunk_y c
      \<and> chunk_z (fold f xs c) = chunk_z c \<and> isDirty (fold f xs c) = isDirty c"
    if step: "\<And>a s. \<exists>bl. f a s = s\<lparr>blocks := bl\<rparr>" for f :: "int \<Rightarrow> Chunk \<Rightarrow> Chunk" and xs
  proof (rule fold_invariant [where P = "\<lambda>s::Chunk. chunk_x s = chunk_x c \<and> chunk_y s = chunk_y c
      \<and> chunk_z s = chunk_z c \<and> isDirty s = isDirty c"])
    show "chunk_x c = chunk_x c \<and> chunk_y c = chunk_y c \<and> chunk_z c = chunk_z c
        \<and> isDirty c = isDirty c" by simp
    fix a :: int and s :: Chunk
    assume h: "chunk_x s = chunk_x c \<and> chunk_y s = chunk_y c \<and> chunk_z s = chunk_z c
        \<and> isDirty s = isDirty c"
    obtain bl where "f a s = s\<lparr>blocks := bl\<rparr>" using step by blast
    then show "chunk_x (f a s) = chunk_x c \<and> chunk_y (f a s) = chunk_y c
        \<and> chunk_z (f a s) = chunk_z c \<and> isDirty (f a s) = isDirty c"
      using h by simp
  qed
  note inner = this
  obtain lx lz where p: "p = (lx, lz)" by (cases p)
  show ?thesis
    unfolding p fill_column_def Let_def prod.case
    by (auto intro!: inner [THEN conjunct1] inner [THEN conjunct2, THEN conjunct1]
        inner [THEN conjunct2, THEN conjunct2, THEN conjunct1]
        inner [THEN conjunct2, THEN conjunct2, THEN conjunct2])
qed

lemma fill_layer_coords:
  "chunk_x (fold (fill_column sl heights cyMin) ps c) = chunk_x c
   \<and> chunk_z (fold (fill_column sl heights cyMin) ps c) = chunk_z c"
  by (rule fold_invariant [where P = "\<lambda>s::Chunk. chunk_x s = chunk_x c \<and> chunk_z s = chunk_z c"])
     (simp_all add: fill_column_coords)

lemma terrain_layer_eq:
  "terrain_layer sl heights maxH chunkX chunkZ cy w =
     (if cy * cs > maxH then w
      else markDirty (snd (getOrCreateChunk w chunkX cy chunkZ)) (chunkKey chunkX cy chunkZ)
             (fold (fill_column sl heights (cy * cs)) (List.product [0..cs - 1] [0..cs - 1])
                (chunk_or_new w chunkX cy chunkZ)))"
  by (simp add: terrain_layer_def Let_def case_prod_beta fst_getOrCreateChunk)

lemma lookup_terrain_layer:
  "DAList.lookup (chunks (terrain_layer sl heights maxH chunkX chunkZ cy w)) key =
     (if cy * cs \<le> maxH \<and> key = chunkKey chunkX cy chunkZ
      then Some ((fold (fill_column sl heights (cy * cs)) (List.product [0..cs - 1] [0..cs - 1])
                   (chunk_or_new w chunkX cy chunkZ))\<lparr>isDirty := True\<rparr>)
      else DAList.lookup (chunks w) key)"
  by (auto simp: terrain_layer_eq lookup_markDirty lookup_getOrCreateChunk)

lemma chunks_kept_terrain_layer:
  "chunks_kept w (terrain_layer sl heights maxH chunkX chunkZ cy w)"
  unfolding chunks_kept_def lookup_terrain_layer
  by (auto simp: fill_layer_coords dest: chunk_or_new_coords)

lemma chunks_kept_terrain: "chunks_kept w (terrain sl heights maxH w chunkX chunkZ)"
  unfolding terrain_def by (rule chunks_kept_fold) (rule chunks_kept_terrain_layer)

lemma chunks_kept_generateChunk: "chunks_kept w (generateChunk g w cx cz)"
proof -
  have m: "chunks_kept w (markColumnGenerated w cx cz)"
    by (simp add: chunks_kept_def markColumnGenerated_def)
  show ?thesis
    unfolding generateChunk_def Let_def case_prod_beta
    by (auto intro: chunks_kept_refl
        chunks_kept_trans [OF m chunks_kept_trans [OF chunks_kept_terrain chunks_kept_place_structures]])
qed

lemma chunks_kept_generate_loop: "chunks_kept w (generate_loop g m cols n w)"
proof (induction cols arbitrary: n w)
  case Nil
  show ?case by (simp add: chunks_kept_refl)
next
  case (Cons c cols)
  obtain cx cz where c: "c = (cx, cz)" by (cases c)
  show ?case
    unfolding c
    using Cons.IH chunks_kept_generateChunk [of w g cx cz]
    by (auto simp: Let_def intro: chunks_kept_trans)
qed


section \<open>Column generation is idempotent\<close>

text \<open>
  C1. For every store and every column \<open>(cx, cz)\<close>, generating the column twice in
  succession gives exactly the store that generating it once gives (chunks with their
  buffers, dirty set and generated columns); after the first call the column's flag is
  set, which is what makes the second call return at once.
\<close>

theorem generateChunk_idempotent:
  "generateChunk g (generateChunk g w cx cz) cx cz = generateChunk g w cx cz
   \<and> isColumnGenerated (generateChunk g w cx cz) cx cz"
proof -
  have "isColumnGenerated (generateChunk g w cx cz) cx cz"
    by (simp add: isColumnGenerated_def columnKey_def gc_generateChunk)
  then show ?thesis
    by (subst generateChunk_def) simp
qed


section \<open>Streaming\<close>

subsection \<open>Rings\<close>








subsection \<open>The generation loop\<close>





subsection \<open>Unloading and meshing\<close>

lemma unload_fold:
  "generatedColumns (fold (unload_step pcx pcz ul) es w) = generatedColumns w
   \<and> DAList.lookup (chunks (fold (unload_step pcx pcz ul) es w)) key
       = (if \<exists>c. (key, c) \<in> set es \<and> far_chunk pcx pcz ul c then None
          else DAList.lookup (chunks w) key)
   \<and> set (dirtyChunks (fold (unload_step pcx pcz ul) es w))
       = set (dirtyChunks w) - {k. \<exists>c. (k, c) \<in> set es \<and> far_chunk pcx pcz ul c}"
proof (induction es arbitrary: w)
  case Nil
  show ?case by simp
next
  case (Cons e es)
  obtain k c where e: "e = (k, c)" by (cases e)
  define w1 where "w1 = unload_step pcx pcz ul (k, c) w"
  have w1: "generatedColumns w1 = generatedColumns w"
    "DAList.lookup (chunks w1) key
       = (if key = k \<and> far_chunk pcx pcz ul c then None else DAList.lookup (chunks w) key)"
    "set (dirtyChunks w1)
       = (if far_chunk pcx pcz ul c then set (dirtyChunks w) - {k} else set (dirtyChunks w))"
    by (auto simp: w1_def unload_step_def far_chunk_def)
  have f: "fold (unload_step pcx pcz ul) (e # es) w = fold (unload_step pcx pcz ul) es w1"
    by (simp add: e w1_def)
  show ?case
    unfolding f using Cons.IH [of w1] w1 by (auto simp: e)
qed

lemma in_impl_of_iff:
  "(key, c) \<in> set (DAList.impl_of al) \<longleftrightarrow> DAList.lookup al key = Some c"
  by (simp add: lookup.rep_eq)

lemma unload_effect:
  "generatedColumns (unload w pcx pcz ul) = generatedColumns w
   \<and> DAList.lookup (chunks (unload w pcx pcz ul)) key
       = (case DAList.lookup (chunks w) key of
            None \<Rightarrow> None
          | Some c \<Rightarrow> if far_chunk pcx pcz ul c then None else Some c)
   \<and> set (dirtyChunks (unload w pcx pcz ul))
       = set (dirtyChunks w)
         - {k. \<exists>c. DAList.lookup (chunks w) k = Some c \<and> far_chunk pcx pcz ul c}"
  unfolding unload_def
  using unload_fold [of pcx pcz ul "DAList.impl_of (chunks w)" w key]
  by (auto simp: in_impl_of_iff split: option.split)

lemma rebuild_effect:
  "generatedColumns (rebuild w key) = generatedColumns w
   \<and> set (dirtyChunks (rebuild w key)) \<subseteq> set (dirtyChunks w)
   \<and> map_option (\<lambda>c. (chunk_x c, chunk_z c)) (DAList.lookup (chunks (rebuild w key)) k)
       = map_option (\<lambda>c. (chunk_x c, chunk_z c)) (DAList.lookup (chunks w) k)"
  by (auto simp: rebuild_def DAList.lookup_update split: option.split)

lemma buildChunks_loop_effect:
  "generatedColumns (buildChunks_loop m keys built w) = generatedColumns w
   \<and> set (dirtyChunks (buildChunks_loop m keys built w)) \<subseteq> set (dirtyChunks w)
   \<and> map_option (\<lambda>c. (chunk_x c, chunk_z c))
         (DAList.lookup (chunks (buildChunks_loop m keys built w)) k)
       = map_option (\<lambda>c. (chunk_x c, chunk_z c)) (DAList.lookup (chunks w) k)"
proof (induction keys arbitrary: built w)
  case Nil
  show ?case by simp
next
  case (Cons key keys)
  show ?case
    using Cons.IH [of "built + 1" "rebuild w key"] rebuild_effect [of w key k]
    by (auto simp: Let_def split: option.split)
qed

lemma buildChunks_effect:
  "generatedColumns (buildChunks w m) = generatedColumns w
   \<and> set (dirtyChunks (buildChunks w m)) \<subseteq> set (dirtyChunks w)
   \<and> map_option (\<lambda>c. (chunk_x c, chunk_z c)) (DAList.lookup (chunks (buildChunks w m)) k)
       = map_option (\<lambda>c. (chunk_x c, chunk_z c)) (DAList.lookup (chunks w) k)"
  unfolding buildChunks_def by (rule buildChunks_loop_effect)




lemma far_chunk_distance:
  "far_chunk pcx pcz ul c \<longleftrightarrow> ul < column_distance pcx pcz (chunk_x c) (chunk_z c)"
  by (auto simp: far_chunk_def column_distance_def)

lemma getChunk_one_chunk_World: "getChunk (one_chunk_World cx) cx 0 0 = Some (new_Chunk cx 0 0)"
  by (simp add: one_chunk_World_def getChunk_def getOrCreateChunk_def empty_World_def Let_def)

text \<open>
  C9. A call of \<open>update\<close> keeps every loaded chunk whose horizontal Chebyshev distance
  from the player's column is at most \<open>renderDistance + 3\<close>; a loaded chunk farther
  away is gone from the chunk map and from the dirty set after the call; and no chunk
  that is loaded after the call is farther away than that.
\<close>

theorem update_unload_hysteresis:
  "(getChunk w kx ky kz = Some c
      \<and> column_distance \<lfloor>playerX / 32\<rfloor> \<lfloor>playerZ / 32\<rfloor> (chunk_x c) (chunk_z c)
          \<le> renderDistance + 3 \<longrightarrow>
      (\<exists>c'. getChunk (update w playerX playerZ g renderDistance maxGen maxBuild) kx ky kz
              = Some c'))
   \<and> (getChunk w kx ky kz = Some c
      \<and> column_distance \<lfloor>playerX / 32\<rfloor> \<lfloor>playerZ / 32\<rfloor> (chunk_x c) (chunk_z c)
          > renderDistance + 3 \<longrightarrow>
      getChunk (update w playerX playerZ g renderDistance maxGen maxBuild) kx ky kz = None
      \<and> chunkKey kx ky kz
          \<notin> set (dirtyChunks (update w playerX playerZ g renderDistance maxGen maxBuild)))
   \<and> (\<forall>c'. getChunk (update w playerX playerZ g renderDistance maxGen maxBuild) kx ky kz
              = Some c' \<longrightarrow>
          column_distance \<lfloor>playerX / 32\<rfloor> \<lfloor>playerZ / 32\<rfloor> (chunk_x c') (chunk_z c')
            \<le> renderDistance + 3)"
proof -
  define pcx where "pcx = \<lfloor>playerX / 32\<rfloor>"
  define pcz where "pcz = \<lfloor>playerZ / 32\<rfloor>"
  define key where "key = chunkKey kx ky kz"
  define w1 where "w1 = generate_loop g maxGen (ring_columns pcx pcz renderDistance) 0 w"
  define w2 where "w2 = unload w1 pcx pcz (renderDistance + 3)"
  define w3 where "w3 = buildChunks w2 (Some maxBuild)"
  have upd: "update w playerX playerZ g renderDistance maxGen maxBuild = w3"
    by (simp add: update_def Let_def w3_def w2_def w1_def pcx_def pcz_def Chunk_SIZE_def)
  have kept: "chunks_kept w w1"
    unfolding w1_def by (rule chunks_kept_generate_loop)
  have l2: "DAList.lookup (chunks w2) key
      = (case DAList.lookup (chunks w1) key of
           None \<Rightarrow> None
         | Some c \<Rightarrow> if far_chunk pcx pcz (renderDistance + 3) c then None else Some c)"
    unfolding w2_def using unload_effect [of w1 pcx pcz "renderDistance + 3" key] by blast
  have d2: "set (dirtyChunks w2) = set (dirtyChunks w1)
      - {k. \<exists>c. DAList.lookup (chunks w1) k = Some c \<and> far_chunk pcx pcz (renderDistance + 3) c}"
    unfolding w2_def using unload_effect [of w1 pcx pcz "renderDistance + 3" key] by blast
  have l3: "map_option (\<lambda>c. (chunk_x c, chunk_z c)) (DAList.lookup (chunks w3) key)
      = map_option (\<lambda>c. (chunk_x c, chunk_z c)) (DAList.lookup (chunks w2) key)"
    unfolding w3_def using buildChunks_effect [of w2 "Some maxBuild" key] by blast
  have d3: "set (dirtyChunks w3) \<subseteq> set (dirtyChunks w2)"
    unfolding w3_def using buildChunks_effect [of w2 "Some maxBuild" key] by blast
  have a: "\<exists>c'. DAList.lookup (chunks w3) key = Some c'"
    if h: "DAList.lookup (chunks w) key = Some c"
      "column_distance pcx pcz (chunk_x c) (chunk_z c) \<le> renderDistance + 3"
  proof -
    obtain c1 where c1: "DAList.lookup (chunks w1) key = Some c1"
      "chunk_x c1 = chunk_x c" "chunk_z c1 = chunk_z c"
      using kept h(1) unfolding chunks_kept_def by blast
    have "\<not> far_chunk pcx pcz (renderDistance + 3) c1"
      using h(2) c1 by (simp add: far_chunk_distance)
    then have "DAList.lookup (chunks w2) key = Some c1" using l2 c1(1) by simp
    then show ?thesis using l3 by (cases "DAList.lookup (chunks w3) key") auto
  qed
  have b: "DAList.lookup (chunks w3) key = None \<and> key \<notin> set (dirtyChunks w3)"
    if h: "DAList.lookup (chunks w) key = Some c"
      "column_distance pcx pcz (chunk_x c) (chunk_z c) > renderDistance + 3"
  proof -
    obtain c1 where c1: "DAList.lookup (chunks w1) key = Some c1"
      "chunk_x c1 = chunk_x c" "chunk_z c1 = chunk_z c"
      using kept h(1) unfolding chunks_kept_def by blast
    have far: "far_chunk pcx pcz (renderDistance + 3) c1"
      using h(2) c1 by (simp add: far_chunk_distance)
    then have "DAList.lookup (chunks w2) key = None" using l2 c1(1) by simp
    then have "DAList.lookup (chunks w3) key = None" using l3 by simp
    moreover have "key \<notin> set (dirtyChunks w2)" using d2 far c1(1) by blast
    ultimately show ?thesis using d3 by blast
  qed
  have c: "column_distance pcx pcz (chunk_x c') (chunk_z c') \<le> renderDistance + 3"
    if h: "DAList.lookup (chunks w3) key = Some c'" for c'
  proof -
    obtain c2 where c2: "DAList.lookup (chunks w2) key = Some c2"
      "chunk_x c2 = chunk_x c'" "chunk_z c2 = chunk_z c'"
      using l3 h by (cases "DAList.lookup (chunks w2) key") auto
    have "\<not> far_chunk pcx pcz (renderDistance + 3) c2"
      using l2 c2(1) by (auto split: option.splits if_splits)
    then show ?thesis using c2 by (simp add: far_chunk_distance)
  qed
  show ?thesis
    unfolding upd getChunk_def key_def [symmetric] pcx_def [symmetric] pcz_def [symmetric]
    using a b c by blast
qed

theorem update_unload_hysteresis_witness:
  "getChunk (one_chunk_World 5) 5 0 0 = Some (new_Chunk 5 0 0)
   \<and> column_distance \<lfloor>(0::real) / 32\<rfloor> \<lfloor>(0::real) / 32\<rfloor> (chunk_x (new_Chunk 5 0 0)) (chunk_z (new_Chunk 5 0 0)) = 4 + 1
   \<and> (\<exists>c'. getChunk (update (one_chunk_World 5) 0 0 (new_WorldGenerator default_options) 4 1 2) 5 0 0
          = Some c')
   \<and> getChunk (one_chunk_World 8) 8 0 0 = Some (new_Chunk 8 0 0)
   \<and> column_distance \<lfloor>(0::real) / 32\<rfloor> \<lfloor>(0::real) / 32\<rfloor> (chunk_x (new_Chunk 8 0 0)) (chunk_z (new_Chunk 8 0 0)) = 4 + 3 + 1
   \<and> getChunk (update (one_chunk_World 8) 0 0 (new_WorldGenerator default_options) 4 1 2) 8 0 0 = None
   \<and> chunkKey 8 0 0
        \<notin> set (dirtyChunks (update (one_chunk_World 8) 0 0 (new_WorldGenerator default_options) 4 1 2))"
proof -
  have d5: "column_distance \<lfloor>(0::real) / 32\<rfloor> \<lfloor>(0::real) / 32\<rfloor> (chunk_x (new_Chunk 5 0 0)) (chunk_z (new_Chunk 5 0 0)) = 4 + 1"
    by (simp add: column_distance_def new_Chunk_def)
  have d8: "column_distance \<lfloor>(0::real) / 32\<rfloor> \<lfloor>(0::real) / 32\<rfloor> (chunk_x (new_Chunk 8 0 0)) (chunk_z (new_Chunk 8 0 0)) = 4 + 3 + 1"
    by (simp add: column_distance_def new_Chunk_def)
  show ?thesis
    using d5 d8 getChunk_one_chunk_World [of 5] getChunk_one_chunk_World [of 8]
      update_unload_hysteresis [of "one_chunk_World 5" 5 0 0 "new_Chunk 5 0 0" 0 0 4
        "new_WorldGenerator default_options" 1 2]
      update_unload_hysteresis [of "one_chunk_World 8" 8 0 0 "new_Chunk 8 0 0" 0 0 4
        "new_WorldGenerator default_options" 1 2]
    by simp
qed


section \<open>Terrain fill\<close>

subsection \<open>Writes into a voxel buffer\<close>

lemma div_mod_32:
  fixes a b :: int
  assumes "0 \<le> b" "b < 32"
  shows "(a * 32 + b) div 32 = a" "(a * 32 + b) mod 32 = b"
  using assms by simp_all

lemma block_index_inj:
  fixes lx ly lz lx' ly' lz' :: int
  assumes "0 \<le> ly" "ly < 32" "0 \<le> lz" "lz < 32"
    and "0 \<le> ly'" "ly' < 32" "0 \<le> lz'" "lz' < 32"
  shows "(lx * 32 + ly) * 32 + lz = (lx' * 32 + ly') * 32 + lz'
          \<longleftrightarrow> lx = lx' \<and> ly = ly' \<and> lz = lz'"
proof
  assume e: "(lx * 32 + ly) * 32 + lz = (lx' * 32 + ly') * 32 + lz'"
  have "((lx * 32 + ly) * 32 + lz) mod 32 = ((lx' * 32 + ly') * 32 + lz') mod 32"
    using e by (rule arg_cong)
  then have z: "lz = lz'"
    unfolding div_mod_32(2) [OF assms(3,4)] div_mod_32(2) [OF assms(7,8)] .
  have "((lx * 32 + ly) * 32 + lz) div 32 = ((lx' * 32 + ly') * 32 + lz') div 32"
    using e by (rule arg_cong)
  then have e2: "lx * 32 + ly = lx' * 32 + ly'"
    unfolding div_mod_32(1) [OF assms(3,4)] div_mod_32(1) [OF assms(7,8)] .
  have "(lx * 32 + ly) mod 32 = (lx' * 32 + ly') mod 32"
    using e2 by (rule arg_cong)
  then have y: "ly = ly'"
    unfolding div_mod_32(2) [OF assms(1,2)] div_mod_32(2) [OF assms(5,6)] .
  have "(lx * 32 + ly) div 32 = (lx' * 32 + ly') div 32"
    using e2 by (rule arg_cong)
  then have x: "lx = lx'"
    unfolding div_mod_32(1) [OF assms(1,2)] div_mod_32(1) [OF assms(5,6)] .
  show "lx = lx' \<and> ly = ly' \<and> lz = lz'" using x y z by simp
next
  assume "lx = lx' \<and> ly = ly' \<and> lz = lz'"
  then show "(lx * 32 + ly) * 32 + lz = (lx' * 32 + ly') * 32 + lz'" by simp
qed

lemma fold_write_frame:
  "(\<And>a. a \<in> set xs \<Longrightarrow> idx a \<noteq> i) \<Longrightarrow>
   blocks (fold (\<lambda>a ch. ch\<lparr>blocks := (blocks ch)(idx a := val a)\<rparr>) xs c) i = blocks c i"
  by (induction xs arbitrary: c) auto

lemma fold_write_hit:
  "a \<in> set xs \<Longrightarrow> (\<And>b. b \<in> set xs \<Longrightarrow> idx b = idx a \<Longrightarrow> val b = val a) \<Longrightarrow>
   blocks (fold (\<lambda>a ch. ch\<lparr>blocks := (blocks ch)(idx a := val a)\<rparr>) xs c) (idx a) = val a"
proof (induction xs arbitrary: c a)
  case Nil
  then show ?case by simp
next
  case (Cons x xs)
  let ?f = "\<lambda>a ch. ch\<lparr>blocks := (blocks ch)(idx a := val a)\<rparr>"
  show ?case
  proof (cases "\<exists>b \<in> set xs. idx b = idx a")
    case True
    then obtain b where b: "b \<in> set xs" "idx b = idx a" by blast
    have vb: "val b = val a" using Cons.prems(2) [of b] b by simp
    have "blocks (fold ?f xs (?f x c)) (idx b) = val b"
    proof (rule Cons.IH [OF b(1)])
      fix b' assume "b' \<in> set xs" "idx b' = idx b"
      then show "val b' = val b" using Cons.prems(2) [of b'] b(2) vb by simp
    qed
    then have "blocks (fold ?f xs (?f x c)) (idx a) = val a"
      unfolding b(2) vb .
    then show ?thesis by (simp only: fold_simps comp_apply)
  next
    case False
    then have ax: "a = x" using Cons.prems(1) by auto
    have "blocks (fold ?f xs (?f x c)) (idx a) = blocks (?f x c) (idx a)"
      by (rule fold_write_frame) (use False in blast)
    also have "\<dots> = val a" unfolding ax by simp
    finally show ?thesis by (simp only: fold_simps comp_apply)
  qed
qed


lemma fold_one_hit:
  assumes "distinct ps"
    and frame: "\<And>p c. p \<in> set ps \<Longrightarrow> p \<noteq> q \<Longrightarrow> obs (F p c) = obs c"
    and hit: "\<And>c. obs (F q c) = G (obs c)"
  shows "obs (fold F ps c) = (if q \<in> set ps then G (obs c) else obs c)"
  using assms(1,2)
proof (induction ps arbitrary: c)
  case Nil
  show ?case by simp
next
  case (Cons p ps)
  have d: "distinct ps" "p \<notin> set ps" using Cons.prems(1) by simp_all
  have ih: "obs (fold F ps c') = (if q \<in> set ps then G (obs c') else obs c')" for c'
    by (rule Cons.IH [OF d(1)]) (use Cons.prems(2) in auto)
  show ?case
  proof (cases "p = q")
    case True
    then have "q \<notin> set ps" using d(2) by simp
    then have "obs (fold F ps (F p c)) = obs (F p c)" using ih by simp
    then show ?thesis using True hit by simp
  next
    case False
    have "obs (F p c) = obs c" by (rule Cons.prems(2)) (use False in auto)
    then show ?thesis using ih [of "F p c"] False by simp
  qed
qed

subsection \<open>Terrain fill\<close>

lemma fill_column_blocks:
  fixes lx ly lz lx' lz' :: int
  assumes t: "0 \<le> ly" "ly < 32" "0 \<le> lz" "lz < 32"
    and p: "0 \<le> lz'" "lz' < 32"
  shows "blocks (fill_column sl heights cyMin (lx', lz') c) ((lx * 32 + ly) * 32 + lz) =
     (if lx' = lx \<and> lz' = lz \<and> cyMin + ly \<le> heights (lx * 32 + lz)
      then terrain_block (heights (lx * 32 + lz) \<le> sl + 2) (heights (lx * 32 + lz)) (cyMin + ly)
      else blocks c ((lx * 32 + ly) * 32 + lz))"
proof -
  define s where "s = heights (lx' * 32 + lz')"
  define top where "top = min s (cyMin + 32 - 1)"
  define idx where "idx = (\<lambda>wy. (lx' * 32 + (wy - cyMin)) * 32 + lz')"
  define val where "val = terrain_block (s \<le> sl + 2) s"
  have eq: "fill_column sl heights cyMin (lx', lz') c =
      (if s < cyMin then c
       else fold (\<lambda>wy ch. ch\<lparr>blocks := (blocks ch)(idx wy := val wy)\<rparr>) [cyMin..top] c)"
    by (simp add: fill_column_def Let_def cs_def s_def top_def idx_def val_def)
  have inj: "idx wy = (lx * 32 + ly) * 32 + lz \<longleftrightarrow> lx' = lx \<and> wy = cyMin + ly \<and> lz' = lz"
    if "wy \<in> set [cyMin..top]" for wy
  proof -
    have "0 \<le> wy - cyMin" "wy - cyMin < 32" using that by (simp_all add: top_def)
    then show ?thesis
      unfolding idx_def using block_index_inj [of "wy - cyMin" lz' ly lz lx' lx] t p by auto
  qed
  show ?thesis
  proof (cases "lx' = lx \<and> lz' = lz \<and> cyMin + ly \<le> heights (lx * 32 + lz)")
    case True
    then have s: "s = heights (lx * 32 + lz)" "cyMin + ly \<le> s" by (simp_all add: s_def)
    have mem: "cyMin + ly \<in> set [cyMin..top]" using s(2) t by (simp add: top_def)
    have "blocks (fold (\<lambda>wy ch. ch\<lparr>blocks := (blocks ch)(idx wy := val wy)\<rparr>) [cyMin..top] c)
        (idx (cyMin + ly)) = val (cyMin + ly)"
    proof (rule fold_write_hit [OF mem])
      fix b assume b: "b \<in> set [cyMin..top]" "idx b = idx (cyMin + ly)"
      have "idx (cyMin + ly) = (lx * 32 + ly) * 32 + lz" using inj [OF mem] True by simp
      then have "b = cyMin + ly" using inj [OF b(1)] b(2) by simp
      then show "val b = val (cyMin + ly)" by simp
    qed
    then have e2: "blocks (fold (\<lambda>wy ch. ch\<lparr>blocks := (blocks ch)(idx wy := val wy)\<rparr>) [cyMin..top] c)
        (idx (cyMin + ly)) = terrain_block (heights (lx * 32 + lz) \<le> sl + 2)
          (heights (lx * 32 + lz)) (cyMin + ly)"
      unfolding val_def s(1) .
    have e3: "idx (cyMin + ly) = (lx * 32 + ly) * 32 + lz" using inj [OF mem] True by simp
    have "\<not> s < cyMin" using s(2) t(1) by simp
    then have e1: "fill_column sl heights cyMin (lx', lz') c =
        fold (\<lambda>wy ch. ch\<lparr>blocks := (blocks ch)(idx wy := val wy)\<rparr>) [cyMin..top] c"
      using eq by simp
    have r: "blocks (fill_column sl heights cyMin (lx', lz') c) ((lx * 32 + ly) * 32 + lz)
        = terrain_block (heights (lx * 32 + lz) \<le> sl + 2) (heights (lx * 32 + lz)) (cyMin + ly)"
      unfolding e1 e3 [symmetric] by (rule e2)
    show ?thesis by (subst if_P [OF True]) (rule r)
  next
    case False
    have "blocks (fold (\<lambda>wy ch. ch\<lparr>blocks := (blocks ch)(idx wy := val wy)\<rparr>) [cyMin..top] c)
        ((lx * 32 + ly) * 32 + lz) = blocks c ((lx * 32 + ly) * 32 + lz)"
    proof (rule fold_write_frame)
      fix wy assume wy: "wy \<in> set [cyMin..top]"
      have "wy \<le> s" using wy by (simp add: top_def)
      then show "idx wy \<noteq> (lx * 32 + ly) * 32 + lz"
        using inj [OF wy] False by (auto simp: s_def)
    qed
    then have "blocks (fill_column sl heights cyMin (lx', lz') c) ((lx * 32 + ly) * 32 + lz)
        = blocks c ((lx * 32 + ly) * 32 + lz)"
      unfolding eq by simp
    then show ?thesis by (subst if_not_P [OF False])
  qed
qed

lemma fill_layer_blocks:
  fixes lx ly lz :: int
  assumes t: "0 \<le> lx" "lx < 32" "0 \<le> ly" "ly < 32" "0 \<le> lz" "lz < 32"
  shows "blocks (fold (fill_column sl heights cyMin) (List.product [0..cs - 1] [0..cs - 1]) c)
           ((lx * 32 + ly) * 32 + lz) =
     (if cyMin + ly \<le> heights (lx * 32 + lz)
      then terrain_block (heights (lx * 32 + lz) \<le> sl + 2) (heights (lx * 32 + lz)) (cyMin + ly)
      else blocks c ((lx * 32 + ly) * 32 + lz))"
proof -
  let ?ps = "List.product [0..cs - 1] [0..cs - 1]"
  let ?G = "\<lambda>v. if cyMin + ly \<le> heights (lx * 32 + lz)
      then terrain_block (heights (lx * 32 + lz) \<le> sl + 2) (heights (lx * 32 + lz)) (cyMin + ly)
      else v"
  have d: "distinct ?ps" by (simp add: distinct_product)
  have m: "(lx, lz) \<in> set ?ps" using t by (simp add: cs_def)
  have "blocks (fold (fill_column sl heights cyMin) ?ps c) ((lx * 32 + ly) * 32 + lz)
      = (if (lx, lz) \<in> set ?ps then ?G (blocks c ((lx * 32 + ly) * 32 + lz))
         else blocks c ((lx * 32 + ly) * 32 + lz))"
  proof (rule fold_one_hit [where obs = "\<lambda>ch::Chunk. blocks ch ((lx * 32 + ly) * 32 + lz)", OF d])
    fix p and ch :: Chunk
    assume p: "p \<in> set ?ps" "p \<noteq> (lx, lz)"
    obtain lx' lz' where pp: "p = (lx', lz')" by (cases p)
    have r: "0 \<le> lz'" "lz' < 32" using p(1) by (simp_all add: pp cs_def)
    show "blocks (fill_column sl heights cyMin p ch) ((lx * 32 + ly) * 32 + lz)
        = blocks ch ((lx * 32 + ly) * 32 + lz)"
      unfolding pp using fill_column_blocks [OF t(3-6) r, of sl heights cyMin lx' ch lx] p(2)
      by (auto simp: pp)
  next
    fix ch :: Chunk
    show "blocks (fill_column sl heights cyMin (lx, lz) ch) ((lx * 32 + ly) * 32 + lz)
        = ?G (blocks ch ((lx * 32 + ly) * 32 + lz))"
      using fill_column_blocks [OF t(3-6) t(5,6), of sl heights cyMin lx ch lx] by simp
  qed
  then show ?thesis using m by simp
qed


lemma lookup_terrain:
  assumes cy: "0 \<le> cy" "cy < 8"
  shows "DAList.lookup (chunks (terrain sl heights maxH w chunkX chunkZ)) (chunkKey chunkX cy chunkZ) =
     (if cy * cs \<le> maxH
      then Some ((fold (fill_column sl heights (cy * cs)) (List.product [0..cs - 1] [0..cs - 1])
                   (chunk_or_new w chunkX cy chunkZ))\<lparr>isDirty := True\<rparr>)
      else DAList.lookup (chunks w) (chunkKey chunkX cy chunkZ))"
proof -
  let ?k = "chunkKey chunkX cy chunkZ"
  let ?fill = "fold (fill_column sl heights (cy * cs)) (List.product [0..cs - 1] [0..cs - 1])"
  let ?G = "\<lambda>v. if cy * cs \<le> maxH
      then Some ((?fill (case v of Some c \<Rightarrow> c | None \<Rightarrow> new_Chunk chunkX cy chunkZ))
                   \<lparr>isDirty := True\<rparr>)
      else v"
  have m: "cy \<in> set [0..numCY - 1]" using cy by (simp add: numCY_def)
  have "DAList.lookup (chunks (fold (terrain_layer sl heights maxH chunkX chunkZ) [0..numCY - 1] w)) ?k
      = (if cy \<in> set [0..numCY - 1] then ?G (DAList.lookup (chunks w) ?k)
         else DAList.lookup (chunks w) ?k)"
  proof (rule fold_one_hit [where obs = "\<lambda>w::World. DAList.lookup (chunks w) ?k"])
    show "distinct [0..numCY - 1]" by simp
  next
    fix p and v :: World
    assume "p \<in> set [0..numCY - 1]" "p \<noteq> cy"
    then show "DAList.lookup (chunks (terrain_layer sl heights maxH chunkX chunkZ p v)) ?k
        = DAList.lookup (chunks v) ?k"
      by (simp add: lookup_terrain_layer chunkKey_def)
  next
    fix v :: World
    show "DAList.lookup (chunks (terrain_layer sl heights maxH chunkX chunkZ cy v)) ?k
        = ?G (DAList.lookup (chunks v) ?k)"
      by (simp add: lookup_terrain_layer chunk_or_new_def)
  qed
  then show ?thesis using m by (simp add: terrain_def chunk_or_new_def)
qed

lemma get_block_eq:
  assumes "0 \<le> y" "y < 256"
  shows "get_block w x y z =
     blocks (chunk_or_new w (x div 32) (y div 32) (z div 32))
       (((x mod 32) * 32 + y mod 32) * 32 + z mod 32)"
  using assms
  by (simp add: get_block_def get_def HEIGHT_def Let_def getChunk_def chunk_or_new_def
      chunkCoord_div localCoord_mod getBlock_def block_index_def Chunk_SIZE_def new_Chunk_def
      split: option.split)

lemma terrain_fill_blocks:
  assumes "0 \<le> lx" "lx < 32" "0 \<le> lz" "lz < 32" "0 \<le> Y" "Y < 256"
  shows "get_block (terrain sl heights maxH w chunkX chunkZ) (chunkX * 32 + lx) Y (chunkZ * 32 + lz) =
     (let surface = heights (lx * 32 + lz);
          beach = (surface \<le> sl + 2)
      in if Y \<le> surface \<and> Y div 32 * 32 \<le> maxH then
           (if Y = 0 then BLK_BEDROCK
            else if Y < surface - 4 then BLK_STONE
            else if Y < surface then (if beach then BLK_SAND else BLK_DIRT)
            else (if beach then BLK_SAND else BLK_GRASS))
         else get_block w (chunkX * 32 + lx) Y (chunkZ * 32 + lz))"
proof -
  define cy where "cy = Y div 32"
  define ly where "ly = Y mod 32"
  have cy: "0 \<le> cy" "cy < 8" using assms(5,6) by (simp_all add: cy_def)
  have ly: "0 \<le> ly" "ly < 32" by (simp_all add: ly_def)
  have Y: "cy * 32 + ly = Y" by (simp add: cy_def ly_def)
  have xz: "(chunkX * 32 + lx) div 32 = chunkX" "(chunkX * 32 + lx) mod 32 = lx"
    "(chunkZ * 32 + lz) div 32 = chunkZ" "(chunkZ * 32 + lz) mod 32 = lz"
    using assms(1-4) by simp_all
  have g: "get_block v (chunkX * 32 + lx) Y (chunkZ * 32 + lz)
      = blocks (chunk_or_new v chunkX cy chunkZ) ((lx * 32 + ly) * 32 + lz)" for v
    using get_block_eq [OF assms(5,6), of v "chunkX * 32 + lx" "chunkZ * 32 + lz"]
    by (simp only: xz cy_def ly_def)
  have after: "chunk_or_new (terrain sl heights maxH w chunkX chunkZ) chunkX cy chunkZ =
      (if cy * 32 \<le> maxH
       then (fold (fill_column sl heights (cy * 32)) (List.product [0..cs - 1] [0..cs - 1])
               (chunk_or_new w chunkX cy chunkZ))\<lparr>isDirty := True\<rparr>
       else chunk_or_new w chunkX cy chunkZ)"
    using lookup_terrain [OF cy, of sl heights maxH w chunkX chunkZ]
    by (simp add: chunk_or_new_def cs_def)
  have "blocks (chunk_or_new (terrain sl heights maxH w chunkX chunkZ) chunkX cy chunkZ)
        ((lx * 32 + ly) * 32 + lz) =
      (if cy * 32 \<le> maxH \<and> cy * 32 + ly \<le> heights (lx * 32 + lz)
       then terrain_block (heights (lx * 32 + lz) \<le> sl + 2) (heights (lx * 32 + lz)) (cy * 32 + ly)
       else blocks (chunk_or_new w chunkX cy chunkZ) ((lx * 32 + ly) * 32 + lz))"
    unfolding after
    using fill_layer_blocks [OF assms(1,2) ly assms(3,4), of sl heights "cy * 32"
        "chunk_or_new w chunkX cy chunkZ"]
    by simp
  then have "get_block (terrain sl heights maxH w chunkX chunkZ) (chunkX * 32 + lx) Y (chunkZ * 32 + lz) =
      (if cy * 32 \<le> maxH \<and> Y \<le> heights (lx * 32 + lz)
       then terrain_block (heights (lx * 32 + lz) \<le> sl + 2) (heights (lx * 32 + lz)) Y
       else get_block w (chunkX * 32 + lx) Y (chunkZ * 32 + lz))"
    unfolding g Y .
  then show ?thesis
    by (auto simp: Let_def terrain_block_def cy_def)
qed

subsection \<open>The heightmap\<close>

lemma heightmap_entry:
  fixes lx lz :: int
  assumes t: "0 \<le> lx" "lx < 32" "0 \<le> lz" "lz < 32"
  shows "fst (heightmap g wx0 wz0) (lx * 32 + lz) =
     (case getSurfaceY g (wx0 + lx) (wz0 + lz) of Fin h \<Rightarrow> to_int32 \<lfloor>h\<rfloor> | _ \<Rightarrow> 0)"
proof -
  let ?ps = "List.product [0..cs - 1] [0..cs - 1]"
  let ?v = "case getSurfaceY g (wx0 + lx) (wz0 + lz) of Fin h \<Rightarrow> to_int32 \<lfloor>h\<rfloor> | _ \<Rightarrow> 0"
  have d: "distinct ?ps" by (simp add: distinct_product)
  have m: "(lx, lz) \<in> set ?ps" using t by (simp add: cs_def)
  have "fst (fold (heightmap_step g wx0 wz0) ?ps (\<lambda>_. 0, 0)) (lx * 32 + lz)
      = (if (lx, lz) \<in> set ?ps then (\<lambda>_. ?v) (fst ((\<lambda>_. 0, 0) :: (int \<Rightarrow> int) \<times> int) (lx * 32 + lz))
         else fst ((\<lambda>_. 0, 0) :: (int \<Rightarrow> int) \<times> int) (lx * 32 + lz))"
  proof (rule fold_one_hit
      [where obs = "\<lambda>st :: (int \<Rightarrow> int) \<times> int. fst st (lx * 32 + lz)", OF d])
    fix p and st :: "(int \<Rightarrow> int) \<times> int"
    assume p: "p \<in> set ?ps" "p \<noteq> (lx, lz)"
    obtain lx' lz' where pp: "p = (lx', lz')" by (cases p)
    have r: "0 \<le> lz'" "lz' < 32" using p(1) by (simp_all add: pp cs_def)
    have "lx' * 32 + lz' = lx * 32 + lz \<longleftrightarrow> lx' = lx \<and> lz' = lz"
    proof
      assume e: "lx' * 32 + lz' = lx * 32 + lz"
      have "(lx' * 32 + lz') div 32 = (lx * 32 + lz) div 32"
        "(lx' * 32 + lz') mod 32 = (lx * 32 + lz) mod 32"
        using e by simp_all
      then show "lx' = lx \<and> lz' = lz"
        unfolding div_mod_32 [OF r] div_mod_32 [OF t(3,4)] by simp
    qed simp
    then have "lx' * 32 + lz' \<noteq> lx * 32 + lz" using p(2) pp by simp
    then show "fst (heightmap_step g wx0 wz0 p st) (lx * 32 + lz) = fst st (lx * 32 + lz)"
      by (cases st) (simp add: pp heightmap_step_def cs_def split: double.split)
  next
    fix st :: "(int \<Rightarrow> int) \<times> int"
    show "fst (heightmap_step g wx0 wz0 (lx, lz) st) (lx * 32 + lz) = ?v"
      by (cases st) (simp add: heightmap_step_def cs_def split: double.split)
  qed
  then show ?thesis using m by (simp add: heightmap_def)
qed

lemma fold_reaches:
  assumes "q \<in> set ps"
    and mono: "\<And>p s. m s \<le> m (F p s)"
    and hit: "\<And>s. h \<le> m (F q s)"
  shows "(h::int) \<le> m (fold F ps s)"
  using assms(1)
proof (induction ps arbitrary: s)
  case Nil
  then show ?case by simp
next
  case (Cons p ps)
  have up: "m s' \<le> m (fold F ps s')" for s'
    by (rule fold_invariant [where P = "\<lambda>u. m s' \<le> m u"]) (use mono order_trans in blast)+
  show ?case
  proof (cases "q \<in> set ps")
    case True
    then show ?thesis using Cons.IH by simp
  next
    case False
    then have "p = q" using Cons.prems by simp
    then have "h \<le> m (F p s)" using hit by simp
    then show ?thesis using up [of "F p s"] by simp
  qed
qed

lemma heightmap_max:
  fixes lx lz :: int
  assumes t: "0 \<le> lx" "lx < 32" "0 \<le> lz" "lz < 32"
    and s: "getSurfaceY g (wx0 + lx) (wz0 + lz) = Fin (of_int h)"
  shows "h \<le> snd (heightmap g wx0 wz0)"
  unfolding heightmap_def
proof (rule fold_reaches [where q = "(lx, lz)"])
  show "(lx, lz) \<in> set (List.product [0..cs - 1] [0..cs - 1])" using t by (simp add: cs_def)
  show "snd st \<le> snd (heightmap_step g wx0 wz0 p st)" for p st
    by (cases st; cases p) (simp add: heightmap_step_def split: double.split)
  show "h \<le> snd (heightmap_step g wx0 wz0 (lx, lz) st)" for st
    by (cases st) (simp add: heightmap_step_def s)
qed

lemma to_int32_id: "- 2147483648 \<le> h \<Longrightarrow> h < 2147483648 \<Longrightarrow> to_int32 h = h"
  by (simp add: to_int32_def)

lemma terrain_fill_of_heightmap:
  assumes r: "0 \<le> lx" "lx < 32" "0 \<le> lz" "lz < 32" "0 \<le> Y" "Y < 256"
    and s: "getSurfaceY g (chunkX * cs + lx) (chunkZ * cs + lz) = Fin (of_int surface)"
    and b: "- 2147483648 \<le> surface" "surface < 2147483648"
  shows "get_block (terrain (seaLevel g) (fst (heightmap g (chunkX * cs) (chunkZ * cs)))
            (snd (heightmap g (chunkX * cs) (chunkZ * cs))) w chunkX chunkZ)
           (chunkX * 32 + lx) Y (chunkZ * 32 + lz) =
     (if Y \<le> surface then terrain_block (surface \<le> seaLevel g + 2) surface Y
      else get_block w (chunkX * 32 + lx) Y (chunkZ * 32 + lz))"
proof -
  have e: "fst (heightmap g (chunkX * cs) (chunkZ * cs)) (lx * 32 + lz) = surface"
    using heightmap_entry [OF r(1-4), of g "chunkX * cs" "chunkZ * cs"] s b
    by (simp add: to_int32_id)
  have m: "surface \<le> snd (heightmap g (chunkX * cs) (chunkZ * cs))"
    by (rule heightmap_max [OF r(1-4) s])
  have "Y div 32 * 32 \<le> Y" by simp
  then have l: "Y \<le> surface \<Longrightarrow> Y div 32 * 32 \<le> snd (heightmap g (chunkX * cs) (chunkZ * cs))"
    using m by linarith
  show ?thesis
    using terrain_fill_blocks [OF r, of "seaLevel g" "fst (heightmap g (chunkX * cs) (chunkZ * cs))"
        "snd (heightmap g (chunkX * cs) (chunkZ * cs))" w chunkX chunkZ] l
    by (auto simp: e Let_def terrain_block_def)
qed

text \<open>
  C3. After the terrain loop, a cell of the column at local \<open>(lx, lz)\<close> and height \<open>Y\<close>,
  with \<open>surface\<close> the column's entry of the heightmap, holds: where the loop wrote
  (\<open>Y \<le> surface\<close>, in a chunk layer the loop did not skip), bedrock if \<open>Y = 0\<close>,
  stone if \<open>0 < Y < surface - 4\<close>, sand or dirt if \<open>surface - 4 \<le> Y < surface\<close> and
  sand or grass if \<open>Y = surface\<close>, sand being for a beach column
  (\<open>surface \<le> seaLevel + 2\<close>); everywhere else, so at every \<open>Y > surface\<close>, what it
  held before, which is the empty block in a chunk the loop created. The layers the
  loop skips start above the highest surface of the column (\<open>terrain_fill_of_heightmap\<close>).
\<close>

theorem terrain_fill_rule:
  assumes "0 \<le> lx" "lx < 32" "0 \<le> lz" "lz < 32" "0 \<le> Y" "Y < 256"
  shows "get_block (terrain sl heights maxH w chunkX chunkZ) (chunkX * 32 + lx) Y (chunkZ * 32 + lz) =
     (let surface = heights (lx * 32 + lz);
          beach = (surface \<le> sl + 2)
      in if Y \<le> surface \<and> Y div 32 * 32 \<le> maxH then
           (if Y = 0 then BLK_BEDROCK
            else if Y < surface - 4 then BLK_STONE
            else if Y < surface then (if beach then BLK_SAND else BLK_DIRT)
            else (if beach then BLK_SAND else BLK_GRASS))
         else get_block w (chunkX * 32 + lx) Y (chunkZ * 32 + lz))"
  using assms by (rule terrain_fill_blocks)

theorem terrain_fill_rule_witness:
  "get_block (terrain 62 (\<lambda>_. 60) 60 empty_World 0 0) (0 * 32 + 3) 0 (0 * 32 + 5) = BLK_BEDROCK
   \<and> get_block (terrain 62 (\<lambda>_. 60) 60 empty_World 0 0) (0 * 32 + 3) 60 (0 * 32 + 5) = BLK_SAND
   \<and> get_block (terrain 62 (\<lambda>_. 60) 60 empty_World 0 0) (0 * 32 + 3) 59 (0 * 32 + 5) = BLK_SAND
   \<and> get_block (terrain 62 (\<lambda>_. 60) 60 empty_World 0 0) (0 * 32 + 3) 40 (0 * 32 + 5) = BLK_STONE
   \<and> get_block (terrain 62 (\<lambda>_. 60) 60 empty_World 0 0) (0 * 32 + 3) 61 (0 * 32 + 5)
       = get_block empty_World (0 * 32 + 3) 61 (0 * 32 + 5)
   \<and> get_block (terrain 62 (\<lambda>_. 80) 80 empty_World 0 0) (0 * 32 + 3) 80 (0 * 32 + 5) = BLK_GRASS
   \<and> get_block (terrain 62 (\<lambda>_. 80) 80 empty_World 0 0) (0 * 32 + 3) 77 (0 * 32 + 5) = BLK_DIRT
   \<and> get_block (terrain 62 (\<lambda>_. 80) 80 empty_World 0 0) (0 * 32 + 3) 50 (0 * 32 + 5) = BLK_STONE"
proof -
  have r: "(0::int) \<le> 3" "(3::int) < 32" "(0::int) \<le> 5" "(5::int) < 32" by simp_all
  note t = terrain_fill_rule [OF r, where chunkX = 0 and chunkZ = 0 and w = empty_World and sl = 62]
  show ?thesis
    using t [of 0 "\<lambda>_. 60" 60] t [of 60 "\<lambda>_. 60" 60] t [of 59 "\<lambda>_. 60" 60]
      t [of 40 "\<lambda>_. 60" 60] t [of 61 "\<lambda>_. 60" 60]
      t [of 80 "\<lambda>_. 80" 80] t [of 77 "\<lambda>_. 80" 80] t [of 50 "\<lambda>_. 80" 80]
    by (simp add: BLK_BEDROCK_def BLK_SAND_def BLK_STONE_def BLK_GRASS_def BLK_DIRT_def)
qed


section \<open>The oak tree's canopy\<close>

subsection \<open>Reading after a write\<close>

lemma get_block_out: "y < 0 \<or> y \<ge> 256 \<Longrightarrow> get_block w x y z = 0"
  by (auto simp: get_block_def get_def HEIGHT_def)

lemma chunk_or_new_set_block:
  assumes "0 \<le> y" "y < 256"
  shows "blocks (chunk_or_new (set_block w x y z v) cx cy cz) i =
     (if (cx, cy, cz) = (x div 32, y div 32, z div 32)
         \<and> i = ((x mod 32) * 32 + y mod 32) * 32 + z mod 32
      then v else blocks (chunk_or_new w cx cy cz) i)"
  using assms
  by (auto simp: chunk_or_new_def lookup_set_block HEIGHT_def chunkKey_def chunkCoord_div
      localCoord_mod setBlock_def block_index_def Chunk_SIZE_def)

lemma get_block_set_block:
  "get_block (set_block w x y z v) a b c =
     (if a = x \<and> b = y \<and> c = z \<and> 0 \<le> y \<and> y < 256 then v else get_block w a b c)"
proof (cases "0 \<le> y \<and> y < 256")
  case False
  then show ?thesis by (auto simp: set_block_def HEIGHT_def)
next
  case y: True
  show ?thesis
  proof (cases "0 \<le> b \<and> b < 256")
    case False
    then have "get_block (set_block w x y z v) a b c = 0" "get_block w a b c = 0"
      by (auto intro: get_block_out)
    then show ?thesis using False y by auto
  next
    case b: True
    have split: "k = k div 32 * 32 + k mod 32" for k :: int by simp
    have same: "a = x \<and> b = y \<and> c = z \<longleftrightarrow>
        (a div 32, b div 32, c div 32) = (x div 32, y div 32, z div 32)
        \<and> ((a mod 32) * 32 + b mod 32) * 32 + c mod 32
            = ((x mod 32) * 32 + y mod 32) * 32 + z mod 32"
    proof -
      have "((a mod 32) * 32 + b mod 32) * 32 + c mod 32
            = ((x mod 32) * 32 + y mod 32) * 32 + z mod 32
          \<longleftrightarrow> a mod 32 = x mod 32 \<and> b mod 32 = y mod 32 \<and> c mod 32 = z mod 32"
        by (rule block_index_inj) simp_all
      then show ?thesis
        using split [of a] split [of x] split [of b] split [of y] split [of c] split [of z]
        by (metis prod.inject)
    qed
    show ?thesis
      using y b
      by (simp only: get_block_eq chunk_or_new_set_block same [symmetric] simp_thms if_True)
  qed
qed


subsection \<open>Leaf layers and cap\<close>

lemma oak_leaf_keeps:
  assumes "get_block w a b c \<noteq> 0"
  shows "get_block (oak_leaf x lb z dy r d w) a b c = get_block w a b c"
proof -
  obtain dx dz where d: "d = (dx, dz)" by (cases d)
  show ?thesis
    unfolding d oak_leaf_eq using assms by (auto simp: get_block_set_block AIR_def)
qed

lemma oak_layer_keeps:
  assumes "get_block w a b c \<noteq> 0"
  shows "get_block (oak_layer x lb z dy w) a b c = get_block w a b c"
  unfolding oak_layer_def Let_def
proof (rule fold_invariant [where P = "\<lambda>s. get_block s a b c = get_block w a b c"])
  show "get_block w a b c = get_block w a b c" by simp
  show "get_block (oak_leaf x lb z dy (if dy = 1 then 1 else 2) d s) a b c = get_block w a b c"
    if "get_block s a b c = get_block w a b c" for d s
    using that assms oak_leaf_keeps [of s a b c x lb z dy "if dy = 1 then 1 else 2" d] by simp
qed

lemma oak_layers_keep:
  assumes "get_block w a b c \<noteq> 0"
  shows "get_block (oak_layers w x lb z) a b c = get_block w a b c"
  unfolding oak_layers_def
proof (rule fold_invariant [where P = "\<lambda>s. get_block s a b c = get_block w a b c"])
  show "get_block w a b c = get_block w a b c" by simp
  show "get_block (oak_layer x lb z dy s) a b c = get_block w a b c"
    if "get_block s a b c = get_block w a b c" for dy s
    using that assms oak_layer_keeps [of s a b c x lb z dy] by simp
qed

lemma OakTree_generate_cap:
  assumes "0 \<le> y + (4 + \<lfloor>fst (rng_next rand) * 3\<rfloor>) + 2"
    "y + (4 + \<lfloor>fst (rng_next rand) * 3\<rfloor>) + 2 < 256"
  shows "get_block (fst (OakTree_generate w x y z rand)) x
           (y + (4 + \<lfloor>fst (rng_next rand) * 3\<rfloor>) + 2) z = OAK_LEAVES"
  using assms
  by (simp add: OakTree_generate_def Let_def case_prod_beta oak_cap_def get_block_set_block)

lemma first_draw_12345: "\<lfloor>fst (rng_next (mulberry32 12345)) * 3\<rfloor> = 2"
  by (simp add: rng_next_def mulberry32_def Let_def)

text \<open>
  C7. The leaf layers write only into empty cells (\<open>oak_layers_keep\<close>), but the cap is
  written without looking: a stone block at \<open>(0, 72, 0)\<close> is replaced by leaves when a
  tree is generated at \<open>(0, 64, 0)\<close> with the generator \<open>mulberry32(12345)\<close>, whose first
  draw gives the trunk height 6.
\<close>

theorem oak_cap_overwrites:
  "get_block (set_block empty_World 0 72 0 BLK_STONE) 0 72 0 = BLK_STONE
   \<and> get_block (fst (OakTree_generate (set_block empty_World 0 72 0 BLK_STONE) 0 64 0
                       (mulberry32 12345))) 0 72 0 = OAK_LEAVES
   \<and> BLK_STONE \<noteq> 0 \<and> OAK_LEAVES \<noteq> BLK_STONE"
proof -
  have a: "get_block (set_block empty_World 0 72 0 BLK_STONE) 0 72 0 = BLK_STONE"
    by (simp add: get_block_set_block)
  have b: "get_block (fst (OakTree_generate (set_block empty_World 0 72 0 BLK_STONE) 0 64 0
      (mulberry32 12345))) 0 72 0 = OAK_LEAVES"
    using OakTree_generate_cap [of 64 "mulberry32 12345" "set_block empty_World 0 72 0 BLK_STONE" 0 0]
    by (simp add: first_draw_12345)
  show ?thesis using a b by (simp add: BLK_STONE_def OAK_LEAVES_def)
qed

end
